theory Spec2Isabelle
  imports Main "HOL-Library.Word"
begin

unbundle bit_operations_syntax

section \<open>Package token\<close>

text \<open>
  \<^verbatim>\<open>type TokenType string\<close> and \<^verbatim>\<open>type Token struct { Type TokenType; Literal string }\<close>.
  A token kind is the string the constant block assigns to it; two kinds are the same
  kind exactly when their strings are equal, which is what Go's \<^verbatim>\<open>==\<close> on
  \<^verbatim>\<open>TokenType\<close> compares.
\<close>

type_synonym TokenType = string

record Token =
  Type :: TokenType
  Literal :: string

text \<open>
  The constant block of the token file, each constant with the literal the file gives it.
  Go writes them \<^verbatim>\<open>token.EOF\<close>, \<^verbatim>\<open>token.INT\<close>, ...; here the dot is an underscore.
  Note the literal of \<^verbatim>\<open>EOF\<close>.
\<close>

definition token_ILLEGAL :: TokenType where "token_ILLEGAL = ''ILLEGAL''"
definition token_EOF :: TokenType where "token_EOF = ''INT''"
definition token_IDENT :: TokenType where "token_IDENT = ''IDENT''"
definition token_INT :: TokenType where "token_INT = ''INT''"
definition token_ASSIGN :: TokenType where "token_ASSIGN = ''=''"
definition token_PLUS :: TokenType where "token_PLUS = ''+''"
definition token_COMMA :: TokenType where "token_COMMA = '',''"
definition token_SEMICOLON :: TokenType where "token_SEMICOLON = '';''"
definition token_LPAREN :: TokenType where "token_LPAREN = ''(''"
definition token_RPAREN :: TokenType where "token_RPAREN = '')''"
definition token_LBRACE :: TokenType where "token_LBRACE = ''{''"
definition token_RBRACE :: TokenType where "token_RBRACE = ''}''"
definition token_FUNCTION :: TokenType where "token_FUNCTION = ''FUNCTION''"
definition token_LET :: TokenType where "token_LET = ''LET''"

definition token_RETURN :: TokenType where
  \<comment> \<open>Modelled from the spec: the kind of the \<^verbatim>\<open>return\<close> keyword. The parser switches on
      \<^verbatim>\<open>token.RETURN\<close>, and the constant block of the token file does not declare it (the
      spec lists \<^verbatim>\<open>return\<close> among the kinds the enumeration has room to extend to). It is
      given here the literal the file's convention for keywords (\<^verbatim>\<open>LET = "LET"\<close>,
      \<^verbatim>\<open>FUNCTION = "FUNCTION"\<close>) would give it.\<close>
  "token_RETURN = ''RETURN''"

text \<open>The keyword table and its lookup: two entries, \<^verbatim>\<open>fn\<close> and \<^verbatim>\<open>let\<close>.\<close>

definition keywords_map :: "string \<rightharpoonup> TokenType" where
  "keywords_map = [''fn'' \<mapsto> token_FUNCTION, ''let'' \<mapsto> token_LET]"

definition LookupIdent :: "string \<Rightarrow> TokenType" where
  "LookupIdent ident = (case keywords_map ident of Some tok \<Rightarrow> tok | None \<Rightarrow> token_IDENT)"

section \<open>Package lexer\<close>

text \<open>
  The parser holds a \<^verbatim>\<open>*lexer.Lexer\<close> and uses one method of it, \<^verbatim>\<open>NextToken()\<close>.
  The package is not among the source files, so everything in this section follows the
  description of the lexer in the specification. A lexer is modelled by what it still
  has to deliver: the tokens of the rest of the source, in order. Pulling a token
  removes the first one; from an exhausted lexer every pull delivers the end-of-input
  token again.
\<close>

type_synonym Lexer = "Token list"

definition eofToken :: Token where
  \<comment> \<open>Modelled from the spec: the token the lexer delivers at the end of the source. Its
      kind is the constant \<^verbatim>\<open>token.EOF\<close> of the token file; it has no text.\<close>
  "eofToken = \<lparr>Type = token_EOF, Literal = ''''\<rparr>"

definition NextToken :: "Lexer \<Rightarrow> Token \<times> Lexer" where
  \<comment> \<open>Modelled from the spec: the lexer's \<^verbatim>\<open>NextToken\<close> method, which is not among the
      source files. The stream is finite and ends in the end-of-input token, which the
      parser's advance keeps pulling once the source is exhausted.\<close>
  "NextToken lx = (case lx of [] \<Rightarrow> (eofToken, []) | t # ts \<Rightarrow> (t, ts))"

definition isWhitespace :: "char \<Rightarrow> bool" where
  \<comment> \<open>Modelled from the spec: the insignificant whitespace the lexer skips (blank, tab,
      line feed, carriage return).\<close>
  "isWhitespace c = (c = CHR '' '' \<or> c = CHR 0x09 \<or> c = CHR 0x0A \<or> c = CHR 0x0D)"

definition isLetter :: "char \<Rightarrow> bool" where
  \<comment> \<open>Modelled from the spec: the letters whose runs the lexer classifies as identifiers
      or keywords.\<close>
  "isLetter c = (let n = (of_char c :: nat) in (97 \<le> n \<and> n \<le> 122) \<or> (65 \<le> n \<and> n \<le> 90))"

definition isDigit :: "char \<Rightarrow> bool" where
  \<comment> \<open>Modelled from the spec: the digits whose runs the lexer classifies as integer
      literals.\<close>
  "isDigit c = (let n = (of_char c :: nat) in 48 \<le> n \<and> n \<le> 57)"

definition symbolKind :: "char \<Rightarrow> TokenType" where
  \<comment> \<open>Modelled from the spec: a single-character operator or delimiter maps to its kind,
      any other character to the illegal-token kind.\<close>
  "symbolKind c =
     (if c = CHR ''='' then token_ASSIGN
      else if c = CHR ''+'' then token_PLUS
      else if c = CHR '','' then token_COMMA
      else if c = CHR '';'' then token_SEMICOLON
      else if c = CHR ''('' then token_LPAREN
      else if c = CHR '')'' then token_RPAREN
      else if c = CHR ''{'' then token_LBRACE
      else if c = CHR ''}'' then token_RBRACE
      else token_ILLEGAL)"

function tokenize :: "string \<Rightarrow> Token list" where
  \<comment> \<open>Modelled from the spec: the tokens of a source text, without the end-of-input
      token. Whitespace is skipped, a run of letters is looked up in the keyword table
      (\<open>LookupIdent\<close>, from the token file), a run of digits is an integer literal, any
      other character is a token of its own.\<close>
  "tokenize [] = []"
| "tokenize (c # cs) =
     (if isWhitespace c then tokenize cs
      else if isLetter c then
        \<lparr>Type = LookupIdent (c # takeWhile isLetter cs), Literal = c # takeWhile isLetter cs\<rparr>
          # tokenize (dropWhile isLetter cs)
      else if isDigit c then
        \<lparr>Type = token_INT, Literal = c # takeWhile isDigit cs\<rparr>
          # tokenize (dropWhile isDigit cs)
      else \<lparr>Type = symbolKind c, Literal = [c]\<rparr> # tokenize cs)"
  by pat_completeness auto
termination
  by (relation "measure length") (auto simp: le_imp_less_Suc length_dropWhile_le)

definition lexer_New :: "string \<Rightarrow> Lexer" where
  \<comment> \<open>Modelled from the spec: the lexer's constructor, \<^verbatim>\<open>lexer.New(input)\<close>, handed the
      source text.\<close>
  "lexer_New input = tokenize input"

section \<open>Go library functions the parser calls\<close>

text \<open>
  \<^verbatim>\<open>parseIntegerLiteral\<close> calls \<^verbatim>\<open>strconv.ParseInt(literal, 0, 64)\<close> and formats its
  error message with \<^verbatim>\<open>%q\<close>. Both belong to Go's standard library; they are written
  out here as the library documents them. A byte is read as its code, a \<^typ>\<open>nat\<close>.
\<close>

datatype NumError = ErrSyntax | ErrRange

definition lower :: "nat \<Rightarrow> nat" where
  \<comment> \<open>\<^verbatim>\<open>c | ('x' - 'X')\<close>\<close>
  "lower c = c OR 32"

definition digitVal :: "char \<Rightarrow> nat option" where
  "digitVal c =
     (let n = (of_char c :: nat) in
      if 48 \<le> n \<and> n \<le> 57 then Some (n - 48)
      else if 97 \<le> lower n \<and> lower n \<le> 122 then Some (lower n - 97 + 10)
      else None)"

fun ParseUint_loop :: "nat \<Rightarrow> string \<Rightarrow> 64 word \<Rightarrow> 64 word \<times> NumError option" where
  "ParseUint_loop base [] n = (n, None)"
| "ParseUint_loop base (c # cs) n =
     (if c = CHR ''_'' then ParseUint_loop base cs n
      else case digitVal c of
        None \<Rightarrow> (0, Some ErrSyntax)
      | Some d \<Rightarrow>
          if d \<ge> base then (0, Some ErrSyntax)
          else if n \<ge> (- 1) div of_nat base + 1 then (- 1, Some ErrRange)
          else let n0 = n * of_nat base; n1 = n0 + of_nat d in
            if n1 < n0 then (- 1, Some ErrRange)
            else ParseUint_loop base cs n1)"

fun underscoreOK_loop :: "bool \<Rightarrow> char \<Rightarrow> string \<Rightarrow> bool" where
  "underscoreOK_loop hex saw [] = (saw \<noteq> CHR ''_'')"
| "underscoreOK_loop hex saw (c # cs) =
     (if isDigit c \<or> (hex \<and> 97 \<le> lower (of_char c) \<and> lower (of_char c) \<le> 102)
        then underscoreOK_loop hex (CHR ''0'') cs
      else if c = CHR ''_''
        then (if saw \<noteq> CHR ''0'' then False else underscoreOK_loop hex (CHR ''_'') cs)
      else if saw = CHR ''_'' then False
      else underscoreOK_loop hex (CHR ''!'') cs)"

definition hasBasePrefix :: "string \<Rightarrow> bool" where
  "hasBasePrefix s =
     (case s of a # b # _ \<Rightarrow>
        a = CHR ''0'' \<and> (lower (of_char b) = 98 \<or> lower (of_char b) = 111 \<or> lower (of_char b) = 120)
      | _ \<Rightarrow> False)"

definition underscoreOK :: "string \<Rightarrow> bool" where
  "underscoreOK s0 =
     (let s = (case s0 of c # cs \<Rightarrow> if c = CHR ''-'' \<or> c = CHR ''+'' then cs else s0 | [] \<Rightarrow> s0) in
      if hasBasePrefix s
        then underscoreOK_loop (lower (of_char (s ! 1)) = 120) (CHR ''0'') (drop 2 s)
        else underscoreOK_loop False (CHR ''^'') s)"

definition ParseUint :: "string \<Rightarrow> 64 word \<times> NumError option" where
  \<comment> \<open>\<^verbatim>\<open>strconv.ParseUint(s, 0, 64)\<close>: base 0 reads the base from the prefix and allows
      underscores where Go's syntax for integer literals does.\<close>
  "ParseUint s =
     (case s of
        [] \<Rightarrow> (0, Some ErrSyntax)
      | c # cs \<Rightarrow>
          let (base, digits) =
            (if c = CHR ''0'' then
               (if length s \<ge> 3 \<and> lower (of_char (s ! 1)) = 98 then (2, drop 2 s)
                else if length s \<ge> 3 \<and> lower (of_char (s ! 1)) = 111 then (8, drop 2 s)
                else if length s \<ge> 3 \<and> lower (of_char (s ! 1)) = 120 then (16, drop 2 s)
                else (8, cs))
             else (10, s))
          in case ParseUint_loop base digits 0 of
               (n, Some e) \<Rightarrow> (n, Some e)
             | (n, None) \<Rightarrow>
                 if CHR ''_'' \<in> set digits \<and> \<not> underscoreOK s then (0, Some ErrSyntax)
                 else (n, None))"

definition ParseInt :: "string \<Rightarrow> 64 word \<times> NumError option" where
  \<comment> \<open>\<^verbatim>\<open>strconv.ParseInt(s, 0, 64)\<close>; the result is an \<^verbatim>\<open>int64\<close>, read with \<^const>\<open>sint\<close>.\<close>
  "ParseInt s =
     (case s of
        [] \<Rightarrow> (0, Some ErrSyntax)
      | c # cs \<Rightarrow>
          let neg = (c = CHR ''-'');
              s1 = (if c = CHR ''+'' \<or> c = CHR ''-'' then cs else s)
          in case ParseUint s1 of
               (un, Some ErrSyntax) \<Rightarrow> (0, Some ErrSyntax)
             | (un, r) \<Rightarrow>
                 if \<not> neg \<and> un \<ge> 2 ^ 63 then (2 ^ 63 - 1, Some ErrRange)
                 else if neg \<and> un > 2 ^ 63 then (- (2 ^ 63), Some ErrRange)
                 else (if neg then - un else un, None))"

definition hexDigit :: "nat \<Rightarrow> char" where
  "hexDigit n = ''0123456789abcdef'' ! n"

definition quoteByte :: "char \<Rightarrow> string" where
  "quoteByte c =
     (let n = (of_char c :: nat) in
      if c = CHR 0x22 then [CHR 0x5C, CHR 0x22]
      else if c = CHR 0x5C then [CHR 0x5C, CHR 0x5C]
      else if 32 \<le> n \<and> n \<le> 126 then [c]
      else if n = 7 then [CHR 0x5C, CHR ''a'']
      else if n = 8 then [CHR 0x5C, CHR ''b'']
      else if n = 12 then [CHR 0x5C, CHR ''f'']
      else if n = 10 then [CHR 0x5C, CHR ''n'']
      else if n = 13 then [CHR 0x5C, CHR ''r'']
      else if n = 9 then [CHR 0x5C, CHR ''t'']
      else if n = 11 then [CHR 0x5C, CHR ''v'']
      else [CHR 0x5C, CHR ''x'', hexDigit (n div 16), hexDigit (n mod 16)])"

definition quote :: "string \<Rightarrow> string" where
  \<comment> \<open>The verb \<^verbatim>\<open>%q\<close> on a string: a double-quoted Go string literal. Exact on ASCII text.
      A byte above \<^verbatim>\<open>0x7f\<close> is escaped as \<^verbatim>\<open>\x..\<close>, which is what Go does with a byte that
      is not part of a valid UTF-8 sequence; Go prints a valid, printable multi-byte
      character unescaped, which needs the Unicode tables and is not modelled.\<close>
  "quote s = CHR 0x22 # concat (map quoteByte s) @ [CHR 0x22]"

section \<open>Package ast\<close>

text \<open>
  Modelled from the spec: the node types the parser builds; the package that declares
  them is not among the source files. The parser's own code fixes their fields: it writes
  \<^verbatim>\<open>&ast.Identifier{Token: ..., Value: ...}\<close>, \<^verbatim>\<open>&ast.IntegerLiteral{Token: ...}\<close> with
  \<^verbatim>\<open>Value\<close> an \<^verbatim>\<open>int64\<close>, \<^verbatim>\<open>&ast.LetStatement{Token: ...}\<close> with a \<^verbatim>\<open>Name\<close>,
  \<^verbatim>\<open>&ast.ReturnStatement{Token: ...}\<close>, \<^verbatim>\<open>&ast.ExpressionStatement{Token: ...}\<close> with an
  \<^verbatim>\<open>Expression\<close>, and \<^verbatim>\<open>&ast.Program{}\<close> with \<^verbatim>\<open>Statements\<close>. A field the parser never
  sets keeps Go's zero value, \<^verbatim>\<open>nil\<close>, which is \<^const>\<open>None\<close> here.
\<close>

datatype Identifier =
  \<comment> \<open>Modelled from the spec: \<^verbatim>\<open>ast.Identifier\<close>, fields \<^verbatim>\<open>Token\<close> and \<^verbatim>\<open>Value\<close>.\<close>
  Identifier (identToken: Token) (identValue: string)

datatype IntegerLiteral =
  \<comment> \<open>Modelled from the spec: \<^verbatim>\<open>ast.IntegerLiteral\<close>, fields \<^verbatim>\<open>Token\<close> and \<^verbatim>\<open>Value\<close>, an
      \<^verbatim>\<open>int64\<close>.\<close>
  IntegerLiteral (intToken: Token) (intValue: "64 word")

text \<open>
  \<^verbatim>\<open>ast.Expression\<close> is an interface. A value of it that is not \<^verbatim>\<open>nil\<close> holds a pointer
  to one of the node structs; the parser only ever puts freshly allocated nodes there.
  The \<^verbatim>\<open>nil\<close> interface is \<^const>\<open>None\<close> of \<open>Expression option\<close>.
\<close>

datatype Expression =
  \<comment> \<open>Modelled from the spec: a value of \<^verbatim>\<open>ast.Expression\<close> other than \<^verbatim>\<open>nil\<close>.\<close>
  IdentifierPtr Identifier | IntegerLiteralPtr IntegerLiteral

datatype LetStatement =
  \<comment> \<open>Modelled from the spec: \<^verbatim>\<open>ast.LetStatement\<close>, fields \<^verbatim>\<open>Token\<close>, \<^verbatim>\<open>Name\<close> (a pointer to
      an identifier) and \<^verbatim>\<open>Value\<close>.\<close>
  LetStatement (letToken: Token) (letName: "Identifier option") (letValue: "Expression option")

datatype ReturnStatement =
  \<comment> \<open>Modelled from the spec: \<^verbatim>\<open>ast.ReturnStatement\<close>, its \<^verbatim>\<open>Token\<close> and its value
      expression.\<close>
  ReturnStatement (returnToken: Token) (returnValue: "Expression option")

datatype ExpressionStatement =
  \<comment> \<open>Modelled from the spec: \<^verbatim>\<open>ast.ExpressionStatement\<close>, fields \<^verbatim>\<open>Token\<close> and
      \<^verbatim>\<open>Expression\<close>.\<close>
  ExpressionStatement (exprToken: Token) (exprExpression: "Expression option")

text \<open>
  \<^verbatim>\<open>ast.Statement\<close> is an interface too: \<^verbatim>\<open>parseStatement\<close> returns it, and returns under
  it a \<^verbatim>\<open>*ast.LetStatement\<close>, a \<^verbatim>\<open>*ast.ReturnStatement\<close> or an
  \<^verbatim>\<open>*ast.ExpressionStatement\<close>. A Go interface value made from a pointer records the
  pointer's type next to the pointer, and it is a \<^verbatim>\<open>nil\<close> interface only when it records
  no type at all: an interface made from a \<^verbatim>\<open>nil\<close> pointer of type \<^verbatim>\<open>*ast.LetStatement\<close>
  compares unequal to \<^verbatim>\<open>nil\<close>. So a statement value is the pointer's type together with
  the pointer, which may be \<^verbatim>\<open>nil\<close> (\<^const>\<open>None\<close>); the \<^verbatim>\<open>nil\<close> interface is \<^const>\<open>None\<close> of
  \<open>Statement option\<close>.
\<close>

datatype Statement =
  \<comment> \<open>Modelled from the spec: a value of \<^verbatim>\<open>ast.Statement\<close> other than \<^verbatim>\<open>nil\<close>.\<close>
    LetStatementPtr "LetStatement option"
  | ReturnStatementPtr "ReturnStatement option"
  | ExpressionStatementPtr "ExpressionStatement option"

record Program =
  \<comment> \<open>Modelled from the spec: \<^verbatim>\<open>ast.Program\<close>, the ordered sequence of statements.\<close>
  Statements :: "Statement list"

section \<open>Package parser\<close>

subsection \<open>The parser's state\<close>

text \<open>
  The precedence constants, \<^verbatim>\<open>iota\<close> counting from \<^verbatim>\<open>LOWEST = 1\<close>.
\<close>

definition LOWEST :: int where "LOWEST = 1"
definition EQUALS :: int where "EQUALS = 2"
definition LESSGREATER :: int where "LESSGREATER = 3"
definition SUM_prec :: int where "SUM_prec = 4"
definition PRODUCT :: int where "PRODUCT = 5"
definition PREFIX :: int where "PREFIX = 6"
definition CALL :: int where "CALL = 7"

text \<open>
  A \<^verbatim>\<open>prefixParseFn\<close> is a function value bound to the parser. Two are ever registered,
  the method values \<^verbatim>\<open>p.parseIdentifier\<close> and \<^verbatim>\<open>p.parseIntegerLiteral\<close>; the table holds
  which of the two, and \<open>callPrefix\<close> below runs it on the parser.
\<close>

datatype prefixParseFn = parseIdentifierFn | parseIntegerLiteralFn

text \<open>
  \<^verbatim>\<open>type Parser struct\<close>. The field \<^verbatim>\<open>infixParseFns\<close> is left out: \<^verbatim>\<open>New\<close> never makes the
  map, \<^verbatim>\<open>registerInfix\<close> is never called and no parse function reads it. The calls of
  \<^verbatim>\<open>fmt.Printf\<close> write a trace to standard output and change nothing in the parser; they
  are left out as well.
\<close>

record Parser =
  l :: Lexer
  errors :: "string list"
  curToken :: Token
  peekToken :: Token
  prefixParseFns :: "TokenType \<rightharpoonup> prefixParseFn"

definition zeroToken :: Token where
  \<comment> \<open>Go's zero value of \<^verbatim>\<open>token.Token\<close>, which both cursor fields hold before \<^verbatim>\<open>New\<close>
      primes them.\<close>
  "zeroToken = \<lparr>Type = [], Literal = []\<rparr>"

definition registerPrefix :: "TokenType \<Rightarrow> prefixParseFn \<Rightarrow> Parser \<Rightarrow> Parser" where
  "registerPrefix tokenType fn p = p\<lparr>prefixParseFns := (prefixParseFns p)(tokenType \<mapsto> fn)\<rparr>"

definition nextToken :: "Parser \<Rightarrow> Parser" where
  "nextToken p =
     (let (t, lx) = NextToken (l p) in
      p\<lparr>curToken := peekToken p, peekToken := t, l := lx\<rparr>)"

definition New :: "Lexer \<Rightarrow> Parser" where
  "New lx =
     (let p0 = \<lparr>l = lx, errors = [], curToken = zeroToken, peekToken = zeroToken,
                prefixParseFns = Map.empty\<rparr>;
          p1 = registerPrefix token_IDENT parseIdentifierFn p0;
          p2 = registerPrefix token_INT parseIntegerLiteralFn p1;
          (t, lx') = NextToken (l p2);
          p3 = p2\<lparr>peekToken := t, l := lx'\<rparr>
      in nextToken p3)"

definition Errors :: "Parser \<Rightarrow> string list" where
  "Errors p = errors p"

definition curTokenIs :: "TokenType \<Rightarrow> Parser \<Rightarrow> bool" where
  "curTokenIs t p = (Type (curToken p) = t)"

definition peekTokenIs :: "TokenType \<Rightarrow> Parser \<Rightarrow> bool" where
  "peekTokenIs t p = (Type (peekToken p) = t)"

definition peekError :: "TokenType \<Rightarrow> Parser \<Rightarrow> Parser" where
  "peekError t p =
     p\<lparr>errors := errors p @
        [''expected next token to be '' @ t @ '', got '' @ Type (peekToken p) @ '' instead'']\<rparr>"

definition expectPeek :: "TokenType \<Rightarrow> Parser \<Rightarrow> bool \<times> Parser" where
  "expectPeek t p =
     (if peekTokenIs t p then (True, nextToken p) else (False, peekError t p))"

subsection \<open>Expressions\<close>

text \<open>
  A parse function returns an \<^verbatim>\<open>ast.Expression\<close> (\<^const>\<open>None\<close> for \<^verbatim>\<open>nil\<close>) and leaves the
  parser in a new state.
\<close>

definition parseIdentifier :: "Parser \<Rightarrow> Expression option \<times> Parser" where
  "parseIdentifier p =
     (Some (IdentifierPtr (Identifier (curToken p) (Literal (curToken p)))), p)"

definition parseIntegerLiteral :: "Parser \<Rightarrow> Expression option \<times> Parser" where
  "parseIntegerLiteral p =
     (case ParseInt (Literal (curToken p)) of
        (v, Some err) \<Rightarrow>
          (None, p\<lparr>errors := errors p @
             [''could not parse '' @ quote (Literal (curToken p)) @ '' as integer'']\<rparr>)
      | (v, None) \<Rightarrow> (Some (IntegerLiteralPtr (IntegerLiteral (curToken p) v)), p))"

definition callPrefix :: "prefixParseFn \<Rightarrow> Parser \<Rightarrow> Expression option \<times> Parser" where
  "callPrefix fn p =
     (case fn of parseIdentifierFn \<Rightarrow> parseIdentifier p
               | parseIntegerLiteralFn \<Rightarrow> parseIntegerLiteral p)"

definition parseExpression :: "int \<Rightarrow> Parser \<Rightarrow> Expression option \<times> Parser" where
  "parseExpression precedence p =
     (case prefixParseFns p (Type (curToken p)) of
        None \<Rightarrow> (None, p)
      | Some prefix \<Rightarrow> callPrefix prefix p)"

subsection \<open>Statements\<close>

text \<open>
  The loop \<^verbatim>\<open>for !p.curTokenIs(token.SEMICOLON) { p.nextToken() }\<close> that both
  \<^verbatim>\<open>parseLetStatement\<close> and \<^verbatim>\<open>parseReturnStatement\<close> end in. Nothing bounds it, so
  it is a partial function: \<^const>\<open>None\<close> is the loop that never ends.
\<close>

partial_function (option) skipToSemicolon :: "Parser \<Rightarrow> Parser option" where
  "skipToSemicolon p =
     (if \<not> curTokenIs token_SEMICOLON p then skipToSemicolon (nextToken p) else Some p)"

declare skipToSemicolon.simps [code]

text \<open>
  The statement parsers return a pointer to their node, \<^const>\<open>None\<close> for the \<^verbatim>\<open>nil\<close> pointer,
  inside the \<open>option\<close> of the computation: \<^const>\<open>None\<close> outside is no return at all.
\<close>

definition parseLetStatement :: "Parser \<Rightarrow> (LetStatement option \<times> Parser) option" where
  "parseLetStatement p =
     (let tok = curToken p; (ok1, p1) = expectPeek token_IDENT p in
      if \<not> ok1 then Some (None, p1)
      else
        let name = Identifier (curToken p1) (Literal (curToken p1));
            (ok2, p2) = expectPeek token_ASSIGN p1 in
        if \<not> ok2 then Some (None, p2)
        else
          (case skipToSemicolon p2 of
             None \<Rightarrow> None
           | Some p3 \<Rightarrow> Some (Some (LetStatement tok (Some name) None), p3)))"

definition parseReturnStatement :: "Parser \<Rightarrow> (ReturnStatement option \<times> Parser) option" where
  "parseReturnStatement p =
     (let tok = curToken p; p1 = nextToken p in
      case skipToSemicolon p1 of
        None \<Rightarrow> None
      | Some p2 \<Rightarrow> Some (Some (ReturnStatement tok None), p2))"

definition parseExpressionStatement :: "Parser \<Rightarrow> ExpressionStatement option \<times> Parser" where
  "parseExpressionStatement p =
     (let tok = curToken p; (expr, p1) = parseExpression LOWEST p;
          p2 = (if peekTokenIs token_SEMICOLON p1 then nextToken p1 else p1)
      in (Some (ExpressionStatement tok expr), p2))"

text \<open>
  \<^verbatim>\<open>parseStatement\<close> returns an \<^verbatim>\<open>ast.Statement\<close>. Each branch converts the pointer it got
  to the interface, so the result records the pointer's type whatever the pointer is.
\<close>

definition parseStatement :: "Parser \<Rightarrow> (Statement option \<times> Parser) option" where
  "parseStatement p =
     (if Type (curToken p) = token_LET then
        (case parseLetStatement p of
           None \<Rightarrow> None | Some (s, p1) \<Rightarrow> Some (Some (LetStatementPtr s), p1))
      else if Type (curToken p) = token_RETURN then
        (case parseReturnStatement p of
           None \<Rightarrow> None | Some (s, p1) \<Rightarrow> Some (Some (ReturnStatementPtr s), p1))
      else
        (case parseExpressionStatement p of
           (s, p1) \<Rightarrow> Some (Some (ExpressionStatementPtr s), p1)))"

subsection \<open>The program loop\<close>

partial_function (option) ParseProgram_loop ::
  "Program \<Rightarrow> Parser \<Rightarrow> (Program \<times> Parser) option" where
  "ParseProgram_loop program p =
     (if Type (curToken p) \<noteq> token_EOF then
        (case parseStatement p of
           None \<Rightarrow> None
         | Some (stmt, p1) \<Rightarrow>
             ParseProgram_loop
               (case stmt of
                  Some s \<Rightarrow> program\<lparr>Statements := Statements program @ [s]\<rparr>
                | None \<Rightarrow> program)
               (nextToken p1))
      else Some (program, p))"

declare ParseProgram_loop.simps [code]

definition ParseProgram :: "Parser \<Rightarrow> (Program \<times> Parser) option" where
  "ParseProgram p = ParseProgram_loop \<lparr>Statements = []\<rparr> p"

text \<open>Parsing a source text: a lexer over the text, a fresh parser over the lexer.\<close>

definition parseSource :: "string \<Rightarrow> (Program \<times> Parser) option" where
  "parseSource input = ParseProgram (New (lexer_New input))"

subsection \<open>Parsers and lexers as objects\<close>

text \<open>
  \<^verbatim>\<open>New\<close> takes a pointer to a lexer and keeps it in the field \<^verbatim>\<open>l\<close>; every method of
  the parser reaches the lexer through that pointer, and \<^verbatim>\<open>NextToken\<close> changes the lexer
  it is called on. Two parsers built on the same pointer therefore pull from one lexer.
  To speak about parser instances and the lexers they own, lexers live in a store, at
  addresses, and a parser object holds the address of its lexer next to its own fields.
\<close>

type_synonym addr = nat

type_synonym lexerStore = "addr \<Rightarrow> Lexer"

record ParserObject =
  lexerPtr :: addr
  objErrors :: "string list"
  objCurToken :: Token
  objPeekToken :: Token
  objPrefixParseFns :: "TokenType \<rightharpoonup> prefixParseFn"

text \<open>
  A method call on a parser object runs the method on the object's fields and on the
  lexer that the store holds at the object's pointer when the call starts (\<open>deref\<close>), and
  leaves the object's new fields and, at that address, the lexer's new state
  (\<open>writeBack\<close>). No other address of the store is touched: the parser has no other
  pointer.
\<close>

definition deref :: "lexerStore \<Rightarrow> ParserObject \<Rightarrow> Parser" where
  "deref h r =
     \<lparr>l = h (lexerPtr r), errors = objErrors r, curToken = objCurToken r,
      peekToken = objPeekToken r, prefixParseFns = objPrefixParseFns r\<rparr>"

definition writeBack :: "addr \<Rightarrow> Parser \<Rightarrow> lexerStore \<Rightarrow> ParserObject \<times> lexerStore" where
  "writeBack a p h =
     (\<lparr>lexerPtr = a, objErrors = errors p, objCurToken = curToken p,
       objPeekToken = peekToken p, objPrefixParseFns = prefixParseFns p\<rparr>,
      h(a := l p))"

definition New_at :: "addr \<Rightarrow> lexerStore \<Rightarrow> ParserObject \<times> lexerStore" where
  \<comment> \<open>\<^verbatim>\<open>New(l)\<close> with \<^verbatim>\<open>l\<close> the lexer at address \<open>a\<close>.\<close>
  "New_at a h = writeBack a (New (h a)) h"

definition ParseProgram_at ::
  "ParserObject \<Rightarrow> lexerStore \<Rightarrow> (Program \<times> ParserObject \<times> lexerStore) option" where
  \<comment> \<open>\<^verbatim>\<open>p.ParseProgram()\<close> on the parser object \<open>r\<close>.\<close>
  "ParseProgram_at r h =
     (case ParseProgram (deref h r) of
        None \<Rightarrow> None
      | Some (prog, p) \<Rightarrow> Some (prog, writeBack (lexerPtr r) p h))"

text \<open>
  A caller that parses with two parsers, one on the lexer at \<open>a1\<close> and one on the lexer
  at \<open>a2\<close>, and reads program and errors of each:
  \<^verbatim>\<open>p1 := New(l1); p2 := New(l2); prog1 := p1.ParseProgram(); prog2 := p2.ParseProgram()\<close>,
  and the same with the second parser built only after the first has parsed. The result
  is \<^const>\<open>None\<close> when one of the parses does not return.
\<close>

definition twoParsers ::
  "addr \<Rightarrow> addr \<Rightarrow> lexerStore \<Rightarrow>
     ((Program \<times> string list) \<times> (Program \<times> string list)) option" where
  "twoParsers a1 a2 h =
     (case New_at a1 h of (r1, h1) \<Rightarrow>
      case New_at a2 h1 of (r2, h2) \<Rightarrow>
      case ParseProgram_at r1 h2 of
        None \<Rightarrow> None
      | Some (prog1, r1', h3) \<Rightarrow>
          (case ParseProgram_at r2 h3 of
             None \<Rightarrow> None
           | Some (prog2, r2', h4) \<Rightarrow> Some ((prog1, objErrors r1'), (prog2, objErrors r2'))))"


section \<open>Notions the properties are stated with\<close>

text \<open>
  The stream of a lexer: the token its \<open>k\<close>-th pull delivers, counting from 0. Past the
  last token of the source every pull delivers the end-of-input token.
\<close>

definition stream :: "Lexer \<Rightarrow> nat \<Rightarrow> Token" where
  "stream lx k = (if k < length lx then lx ! k else eofToken)"

text \<open>
  The parser's cursor stands at position \<open>k\<close> of the stream of \<open>lx\<close>: the current token
  is token \<open>k\<close>, the peek token is token \<open>k + 1\<close>, and the lexer has delivered exactly
  those \<open>k + 2\<close> tokens.
\<close>

definition cursorAt :: "Lexer \<Rightarrow> nat \<Rightarrow> Parser \<Rightarrow> bool" where
  "cursorAt lx k p =
     (curToken p = stream lx k \<and> peekToken p = stream lx (Suc k) \<and> l p = drop (Suc (Suc k)) lx)"

text \<open>
  What the parser has not consumed yet: its two cursor tokens and what the lexer still
  holds.
\<close>

definition upcoming :: "Parser \<Rightarrow> Token list" where
  "upcoming p = curToken p # peekToken p # l p"

definition semicolonAhead :: "Token list \<Rightarrow> bool" where
  "semicolonAhead ts = (token_SEMICOLON \<in> set (map Type ts))"

text \<open>
  A token sequence starts a statement that ends in the skip loop: it starts with a
  \<^verbatim>\<open>return\<close> token, or with \<^verbatim>\<open>let\<close>, an identifier and the assignment operator. Its
  statements are closed when each such start, wherever it occurs, has a semicolon
  somewhere after its first token.
\<close>

fun opensSkip :: "Token list \<Rightarrow> bool" where
  "opensSkip (a # b # c # ts) =
     (Type a = token_RETURN \<or>
      (Type a = token_LET \<and> Type b = token_IDENT \<and> Type c = token_ASSIGN))"
| "opensSkip (a # ts) = (Type a = token_RETURN)"
| "opensSkip [] = False"

fun statementsClosed :: "Token list \<Rightarrow> bool" where
  "statementsClosed [] = True"
| "statementsClosed (t # ts) =
     ((opensSkip (t # ts) \<longrightarrow> semicolonAhead ts) \<and> statementsClosed ts)"

text \<open>The number of upcoming tokens that are not of the end-of-input kind.\<close>

definition pendingWork :: "Parser \<Rightarrow> nat" where
  "pendingWork p = length (filter (\<lambda>t. Type t \<noteq> token_EOF) (upcoming p))"

section \<open>Evaluating the parser\<close>

text \<open>
  The defining equations that running the lexer and the parser on a given text unfolds.
\<close>

lemmas token_kinds =
  token_ILLEGAL_def token_EOF_def token_IDENT_def token_INT_def token_ASSIGN_def
  token_PLUS_def token_COMMA_def token_SEMICOLON_def token_LPAREN_def token_RPAREN_def
  token_LBRACE_def token_RBRACE_def token_FUNCTION_def token_LET_def token_RETURN_def

lemmas lexer_defs =
  lexer_New_def isWhitespace_def isLetter_def isDigit_def symbolKind_def
  LookupIdent_def keywords_map_def NextToken_def eofToken_def

lemmas parser_defs =
  New_def registerPrefix_def nextToken_def zeroToken_def Errors_def
  curTokenIs_def peekTokenIs_def peekError_def expectPeek_def parseIdentifier_def
  parseIntegerLiteral_def callPrefix_def parseExpression_def parseLetStatement_def
  parseReturnStatement_def parseExpressionStatement_def parseStatement_def
  ParseProgram_def parseSource_def LOWEST_def

lemmas loop_eqs = ParseProgram_loop.simps skipToSemicolon.simps

section \<open>The skip loop\<close>

text \<open>
  What the loop returns, when it returns: a parser whose current token is a semicolon,
  with the errors it started with.
\<close>

lemma skip_lands_on_semicolon:
  assumes "skipToSemicolon p = Some q"
  shows "curTokenIs token_SEMICOLON q \<and> errors q = errors p"
proof (rule skipToSemicolon.raw_induct [OF _ assms])
  fix skip p q
  assume IH: "\<And>x y. skip x = Some y \<Longrightarrow> curTokenIs token_SEMICOLON y \<and> errors y = errors x"
    and eq: "(if \<not> curTokenIs token_SEMICOLON p then skip (nextToken p) else Some p) = Some q"
  show "curTokenIs token_SEMICOLON q \<and> errors q = errors p"
  proof (cases "curTokenIs token_SEMICOLON p")
    case True
    with eq show ?thesis by simp
  next
    case False
    with eq have "skip (nextToken p) = Some q" by simp
    from IH [OF this] show ?thesis by (simp add: nextToken_def split: prod.splits)
  qed
qed

lemma skip_keeps_table:
  assumes "skipToSemicolon p = Some q"
  shows "prefixParseFns q = prefixParseFns p"
proof (rule skipToSemicolon.raw_induct [OF _ assms])
  fix skip p q
  assume IH: "\<And>x y. skip x = Some y \<Longrightarrow> prefixParseFns y = prefixParseFns x"
    and eq: "(if \<not> curTokenIs token_SEMICOLON p then skip (nextToken p) else Some p) = Some q"
  show "prefixParseFns q = prefixParseFns p"
  proof (cases "curTokenIs token_SEMICOLON p")
    case True
    with eq show ?thesis by simp
  next
    case False
    with eq have "skip (nextToken p) = Some q" by simp
    from IH [OF this] show ?thesis by (simp add: nextToken_def split: prod.splits)
  qed
qed

lemma upcoming_errors [simp]: "upcoming (p\<lparr>errors := es\<rparr>) = upcoming p"
  by (simp add: upcoming_def)

lemma pendingWork_errors [simp]: "pendingWork (p\<lparr>errors := es\<rparr>) = pendingWork p"
  by (simp add: pendingWork_def)

lemma semicolonAhead_nextToken:
  "\<not> curTokenIs token_SEMICOLON p \<Longrightarrow> semicolonAhead (upcoming p)
     \<Longrightarrow> semicolonAhead (upcoming (nextToken p))"
  by (cases "l p")
    (auto simp: semicolonAhead_def curTokenIs_def upcoming_def nextToken_def NextToken_def)

lemma semicolonAhead_before_nextToken:
  "semicolonAhead (upcoming (nextToken p)) \<Longrightarrow> semicolonAhead (upcoming p)"
  by (cases "l p")
    (auto simp: semicolonAhead_def upcoming_def nextToken_def NextToken_def eofToken_def
      token_kinds)

lemma statementsClosed_nextToken:
  "statementsClosed (upcoming p) \<Longrightarrow> statementsClosed (upcoming (nextToken p))"
  by (cases "l p")
    (auto simp: upcoming_def nextToken_def NextToken_def semicolonAhead_def eofToken_def
      token_kinds)

lemma pendingWork_nextToken_le: "pendingWork (nextToken p) \<le> pendingWork p"
  by (cases "l p")
    (auto simp: pendingWork_def upcoming_def nextToken_def NextToken_def eofToken_def)

lemma pendingWork_nextToken_less:
  "Type (curToken p) \<noteq> token_EOF \<Longrightarrow> pendingWork (nextToken p) < pendingWork p"
  by (cases "l p")
    (auto simp: pendingWork_def upcoming_def nextToken_def NextToken_def eofToken_def)

text \<open>The loop returns only if a semicolon is among the upcoming tokens.\<close>

lemma skip_needs_semicolon:
  assumes "skipToSemicolon p = Some q"
  shows "semicolonAhead (upcoming p)"
proof (rule skipToSemicolon.raw_induct [OF _ assms])
  fix skip p q
  assume IH: "\<And>x y. skip x = Some y \<Longrightarrow> semicolonAhead (upcoming x)"
    and eq: "(if \<not> curTokenIs token_SEMICOLON p then skip (nextToken p) else Some p) = Some q"
  show "semicolonAhead (upcoming p)"
  proof (cases "curTokenIs token_SEMICOLON p")
    case True
    then show ?thesis by (simp add: semicolonAhead_def upcoming_def curTokenIs_def)
  next
    case False
    with eq have "skip (nextToken p) = Some q" by simp
    from IH [OF this] show ?thesis by (rule semicolonAhead_before_nextToken)
  qed
qed

text \<open>
  And it does return if one is: by induction on the number of tokens the lexer holds.
\<close>

lemma skip_terminates:
  "semicolonAhead (upcoming p) \<Longrightarrow>
     \<exists>q. skipToSemicolon p = Some q \<and> curTokenIs token_SEMICOLON q
        \<and> pendingWork q \<le> pendingWork p
        \<and> (statementsClosed (upcoming p) \<longrightarrow> statementsClosed (upcoming q))"
proof (induction "length (l p)" arbitrary: p rule: less_induct)
  case less
  show ?case
  proof (cases "curTokenIs token_SEMICOLON p")
    case True
    then show ?thesis by (simp add: skipToSemicolon.simps)
  next
    case False
    have ahead: "semicolonAhead (upcoming (nextToken p))"
      using semicolonAhead_nextToken [OF False less.prems] .
    show ?thesis
    proof (cases "l p")
      case Nil
      with less.prems False have semi: "curTokenIs token_SEMICOLON (nextToken p)"
        by (auto simp: semicolonAhead_def upcoming_def curTokenIs_def nextToken_def NextToken_def)
      then have "skipToSemicolon p = Some (nextToken p)"
        using False
        by (simp add: skipToSemicolon.simps [of p] skipToSemicolon.simps [of "nextToken p"])
      then show ?thesis
        using semi pendingWork_nextToken_le [of p] statementsClosed_nextToken [of p] by simp
    next
      case (Cons t ts)
      then have "length (l (nextToken p)) < length (l p)"
        by (simp add: nextToken_def NextToken_def)
      from less.hyps [OF this ahead] obtain q where q:
        "skipToSemicolon (nextToken p) = Some q" "curTokenIs token_SEMICOLON q"
        "pendingWork q \<le> pendingWork (nextToken p)"
        "statementsClosed (upcoming (nextToken p)) \<longrightarrow> statementsClosed (upcoming q)"
        by blast
      have "skipToSemicolon p = Some q"
        using False q(1) by (simp add: skipToSemicolon.simps [of p])
      then show ?thesis
        using q pendingWork_nextToken_le [of p] statementsClosed_nextToken [of p] by auto
    qed
  qed
qed

section \<open>One statement of a closed input\<close>

text \<open>
  On an input whose statements are closed, one round of the program loop (a statement,
  then \<^verbatim>\<open>nextToken\<close>) returns, leaves the statements closed and has fewer tokens left
  to do. One lemma for each branch of \<^verbatim>\<open>parseStatement\<close>.
\<close>

lemma parseExpression_frame:
  "upcoming (snd (parseExpression prec p)) = upcoming p"
  by (auto simp: parseExpression_def callPrefix_def parseIdentifier_def parseIntegerLiteral_def
      split: option.splits prefixParseFn.splits prod.splits)

lemma let_step:
  assumes closed: "statementsClosed (upcoming p)" and cur: "Type (curToken p) = token_LET"
  shows "\<exists>s q. parseLetStatement p = Some (s, q) \<and> statementsClosed (upcoming (nextToken q))
           \<and> pendingWork (nextToken q) < pendingWork p"
proof (cases "peekTokenIs token_IDENT p")
  case False
  then have "parseLetStatement p = Some (None, peekError token_IDENT p)"
    by (simp add: parseLetStatement_def expectPeek_def)
  moreover have "nextToken (peekError token_IDENT p)
      = (nextToken p)\<lparr>errors := errors (peekError token_IDENT p)\<rparr>"
    by (simp add: nextToken_def peekError_def split: prod.splits)
  ultimately show ?thesis
    using statementsClosed_nextToken [OF closed] pendingWork_nextToken_less [of p] cur
    by (simp add: token_kinds)
next
  case ident: True
  let ?p1 = "nextToken p"
  have closed1: "statementsClosed (upcoming ?p1)"
    by (rule statementsClosed_nextToken [OF closed])
  have work1: "pendingWork ?p1 < pendingWork p"
    using pendingWork_nextToken_less [of p] cur by (simp add: token_kinds)
  show ?thesis
  proof (cases "peekTokenIs token_ASSIGN ?p1")
    case False
    with ident have "parseLetStatement p = Some (None, peekError token_ASSIGN ?p1)"
      by (simp add: parseLetStatement_def expectPeek_def)
    moreover have "nextToken (peekError token_ASSIGN ?p1)
        = (nextToken ?p1)\<lparr>errors := errors (peekError token_ASSIGN ?p1)\<rparr>"
      by (simp add: nextToken_def peekError_def split: prod.splits)
    ultimately show ?thesis
      using statementsClosed_nextToken [OF closed1] pendingWork_nextToken_le [of ?p1] work1
      by simp
  next
    case assign: True
    let ?p2 = "nextToken ?p1"
    from assign obtain t ts where lp: "l p = t # ts" and t: "Type t = token_ASSIGN"
      by (cases "l p")
        (auto simp: peekTokenIs_def nextToken_def NextToken_def eofToken_def token_kinds)
    have "opensSkip (upcoming p)"
      using cur ident lp t by (simp add: upcoming_def peekTokenIs_def)
    with closed lp have "semicolonAhead (peekToken p # t # ts)"
      by (auto simp: upcoming_def)
    with ident t have "semicolonAhead ts"
      by (simp add: semicolonAhead_def peekTokenIs_def token_kinds)
    then have ahead: "semicolonAhead (upcoming ?p2)"
      using lp by (cases ts)
        (auto simp: semicolonAhead_def upcoming_def nextToken_def NextToken_def)
    from skip_terminates [OF ahead] obtain q where q:
      "skipToSemicolon ?p2 = Some q" "curTokenIs token_SEMICOLON q"
      "pendingWork q \<le> pendingWork ?p2"
      "statementsClosed (upcoming ?p2) \<longrightarrow> statementsClosed (upcoming q)"
      by blast
    have "\<exists>s. parseLetStatement p = Some (s, q)"
      using ident assign q(1) by (simp add: parseLetStatement_def expectPeek_def)
    moreover have "statementsClosed (upcoming (nextToken q))"
      using q(4) statementsClosed_nextToken [OF closed1] statementsClosed_nextToken by blast
    moreover have "pendingWork (nextToken q) < pendingWork p"
      using pendingWork_nextToken_less [of q] q(2,3) pendingWork_nextToken_le [of ?p1] work1
      by (simp add: curTokenIs_def token_kinds)
    ultimately show ?thesis by blast
  qed
qed

lemma return_step:
  assumes closed: "statementsClosed (upcoming p)" and cur: "Type (curToken p) = token_RETURN"
  shows "\<exists>s q. parseReturnStatement p = Some (s, q) \<and> statementsClosed (upcoming (nextToken q))
           \<and> pendingWork (nextToken q) < pendingWork p"
proof -
  let ?p1 = "nextToken p"
  have "opensSkip (upcoming p)"
    using cur by (cases "l p") (simp_all add: upcoming_def)
  with closed have "semicolonAhead (peekToken p # l p)" by (simp add: upcoming_def)
  then have ahead: "semicolonAhead (upcoming ?p1)"
    by (cases "l p") (auto simp: semicolonAhead_def upcoming_def nextToken_def NextToken_def)
  have closed1: "statementsClosed (upcoming ?p1)"
    by (rule statementsClosed_nextToken [OF closed])
  have work1: "pendingWork ?p1 < pendingWork p"
    using pendingWork_nextToken_less [of p] cur by (simp add: token_kinds)
  from skip_terminates [OF ahead] obtain q where q:
    "skipToSemicolon ?p1 = Some q" "curTokenIs token_SEMICOLON q"
    "pendingWork q \<le> pendingWork ?p1"
    "statementsClosed (upcoming ?p1) \<longrightarrow> statementsClosed (upcoming q)"
    by blast
  have "\<exists>s. parseReturnStatement p = Some (s, q)"
    using q(1) by (simp add: parseReturnStatement_def)
  moreover have "statementsClosed (upcoming (nextToken q))"
    using q(4) closed1 statementsClosed_nextToken by blast
  moreover have "pendingWork (nextToken q) < pendingWork p"
    using pendingWork_nextToken_less [of q] q(2,3) work1
    by (simp add: curTokenIs_def token_kinds)
  ultimately show ?thesis by blast
qed

lemma expression_step:
  assumes closed: "statementsClosed (upcoming p)" and cur: "Type (curToken p) \<noteq> token_EOF"
  shows "statementsClosed (upcoming (nextToken (snd (parseExpressionStatement p))))
           \<and> pendingWork (nextToken (snd (parseExpressionStatement p))) < pendingWork p"
proof -
  obtain e p1 where pe: "parseExpression LOWEST p = (e, p1)" by fastforce
  with parseExpression_frame [of LOWEST p] have up: "upcoming p1 = upcoming p" by simp
  then have same: "curToken p1 = curToken p" "pendingWork p1 = pendingWork p"
    by (simp_all add: upcoming_def pendingWork_def)
  show ?thesis
  proof (cases "peekTokenIs token_SEMICOLON p1")
    case False
    with pe have "snd (parseExpressionStatement p) = p1"
      by (simp add: parseExpressionStatement_def)
    then show ?thesis
      using statementsClosed_nextToken [of p1] pendingWork_nextToken_less [of p1]
        up same closed cur
      by simp
  next
    case True
    with pe have q: "snd (parseExpressionStatement p) = nextToken p1"
      by (simp add: parseExpressionStatement_def)
    have "Type (curToken (nextToken p1)) \<noteq> token_EOF"
      using True by (simp add: nextToken_def peekTokenIs_def token_kinds split: prod.splits)
    then show ?thesis
      using statementsClosed_nextToken [of p1] statementsClosed_nextToken [of "nextToken p1"]
        pendingWork_nextToken_less [of "nextToken p1"] pendingWork_nextToken_le [of p1]
        up same closed q
      by simp
  qed
qed

lemma statement_step:
  assumes closed: "statementsClosed (upcoming p)" and cur: "Type (curToken p) \<noteq> token_EOF"
  shows "\<exists>s q. parseStatement p = Some (s, q) \<and> statementsClosed (upcoming (nextToken q))
           \<and> pendingWork (nextToken q) < pendingWork p"
proof -
  consider (lt) "Type (curToken p) = token_LET"
    | (rt) "Type (curToken p) \<noteq> token_LET" "Type (curToken p) = token_RETURN"
    | (ex) "Type (curToken p) \<noteq> token_LET" "Type (curToken p) \<noteq> token_RETURN"
    by blast
  then show ?thesis
  proof cases
    case lt
    from let_step [OF closed lt] show ?thesis
      using lt by (auto simp: parseStatement_def)
  next
    case rt
    from return_step [OF closed rt(2)] show ?thesis
      using rt by (auto simp: parseStatement_def)
  next
    case ex
    from expression_step [OF closed cur] show ?thesis
      using ex by (auto simp: parseStatement_def split: prod.splits)
  qed
qed

text \<open>The program loop on a closed input, by induction on the tokens left to do.\<close>

lemma loop_terminates:
  "statementsClosed (upcoming p) \<Longrightarrow>
     \<exists>r. ParseProgram_loop prog p = Some r \<and> Type (curToken (snd r)) = token_EOF"
proof (induction "pendingWork p" arbitrary: p prog rule: less_induct)
  case less
  show ?case
  proof (cases "Type (curToken p) \<noteq> token_EOF")
    case False
    then show ?thesis by (simp add: ParseProgram_loop.simps [of prog p])
  next
    case True
    from statement_step [OF less.prems True] obtain s q where sq:
      "parseStatement p = Some (s, q)" "statementsClosed (upcoming (nextToken q))"
      "pendingWork (nextToken q) < pendingWork p"
      by blast
    from less.hyps [OF sq(3) sq(2)] show ?thesis
      using True sq(1) by (simp add: ParseProgram_loop.simps [of prog p])
  qed
qed

lemma statementsClosed_New:
  assumes "statementsClosed lx"
  shows "statementsClosed (upcoming (New lx))"
proof (cases lx)
  case Nil
  then show ?thesis
    by (simp add: upcoming_def New_def registerPrefix_def nextToken_def NextToken_def
        eofToken_def token_kinds)
next
  case (Cons a ts)
  with assms show ?thesis
    by (cases ts)
      (auto simp: upcoming_def New_def registerPrefix_def nextToken_def NextToken_def
        eofToken_def token_kinds semicolonAhead_def)
qed

text \<open>
  A \<^verbatim>\<open>let\<close> statement with its identifier and assignment operator and no semicolon
  ahead never returns.
\<close>

lemma let_without_semicolon:
  assumes "peekTokenIs token_IDENT p" "peekTokenIs token_ASSIGN (nextToken p)"
    and "\<not> semicolonAhead (upcoming (nextToken (nextToken p)))"
  shows "parseLetStatement p = None"
proof -
  from assms(3) skip_needs_semicolon have "skipToSemicolon (nextToken (nextToken p)) = None"
    by (cases "skipToSemicolon (nextToken (nextToken p))") auto
  with assms(1,2) show ?thesis by (simp add: parseLetStatement_def expectPeek_def)
qed

section \<open>The cursor on the lexer's stream\<close>

lemma NextToken_drop: "NextToken (drop n lx) = (stream lx n, drop (Suc n) lx)"
proof (cases "n < length lx")
  case True
  then have "drop n lx = lx ! n # drop (Suc n) lx" by (simp add: Cons_nth_drop_Suc)
  then show ?thesis using True by (simp add: NextToken_def stream_def)
next
  case False
  then show ?thesis by (simp add: NextToken_def stream_def)
qed

lemma cursorAt_New: "cursorAt lx 0 (New lx)"
proof -
  have "NextToken lx = (stream lx 0, drop (Suc 0) lx)"
    using NextToken_drop [of 0 lx] by simp
  moreover have "NextToken (drop (Suc 0) lx) = (stream lx (Suc 0), drop (Suc (Suc 0)) lx)"
    by (rule NextToken_drop)
  ultimately show ?thesis
    by (simp add: cursorAt_def New_def registerPrefix_def nextToken_def)
qed

lemma cursorAt_nextToken: "cursorAt lx k p \<Longrightarrow> cursorAt lx (Suc k) (nextToken p)"
  using NextToken_drop [of "Suc (Suc k)" lx] by (simp add: cursorAt_def nextToken_def)

lemma cursorAt_errors: "cursorAt lx k (p\<lparr>errors := es\<rparr>) = cursorAt lx k p"
  by (simp add: cursorAt_def)

lemma cursorAt_expectPeek:
  "cursorAt lx k p \<Longrightarrow>
     cursorAt lx (if fst (expectPeek t p) then Suc k else k) (snd (expectPeek t p))"
  by (simp add: expectPeek_def peekError_def cursorAt_errors cursorAt_nextToken)

lemma cursorAt_parseExpression:
  "cursorAt lx k p \<Longrightarrow> cursorAt lx k (snd (parseExpression prec p))"
  by (auto simp: parseExpression_def callPrefix_def parseIdentifier_def parseIntegerLiteral_def
      cursorAt_errors split: option.splits prefixParseFn.splits prod.splits)

lemma cursorAt_skip:
  assumes "skipToSemicolon p = Some q"
  shows "\<forall>k. cursorAt lx k p \<longrightarrow> (\<exists>k'\<ge>k. cursorAt lx k' q)"
proof (rule skipToSemicolon.raw_induct [OF _ assms])
  fix skip p q
  assume IH: "\<And>x y. skip x = Some y \<Longrightarrow> \<forall>k. cursorAt lx k x \<longrightarrow> (\<exists>k'\<ge>k. cursorAt lx k' y)"
    and eq: "(if \<not> curTokenIs token_SEMICOLON p then skip (nextToken p) else Some p) = Some q"
  show "\<forall>k. cursorAt lx k p \<longrightarrow> (\<exists>k'\<ge>k. cursorAt lx k' q)"
  proof (intro allI impI)
    fix k assume c: "cursorAt lx k p"
    show "\<exists>k'\<ge>k. cursorAt lx k' q"
    proof (cases "curTokenIs token_SEMICOLON p")
      case True
      with eq c show ?thesis by auto
    next
      case False
      with eq have "skip (nextToken p) = Some q" by simp
      from IH [OF this] cursorAt_nextToken [OF c]
      obtain k' where "k' \<ge> Suc k" "cursorAt lx k' q" by blast
      then show ?thesis using Suc_leD by blast
    qed
  qed
qed

lemma cursorAt_parseLetStatement:
  assumes "parseLetStatement p = Some (s, q)" "cursorAt lx k p"
  shows "\<exists>k'\<ge>k. cursorAt lx k' q"
proof -
  obtain ok1 p1 where e1: "expectPeek token_IDENT p = (ok1, p1)" by fastforce
  have c1: "cursorAt lx (if ok1 then Suc k else k) p1"
    using cursorAt_expectPeek [OF assms(2), of token_IDENT] e1 by simp
  show ?thesis
  proof (cases ok1)
    case False
    with assms e1 c1 show ?thesis by (auto simp: parseLetStatement_def)
  next
    case True
    obtain ok2 p2 where e2: "expectPeek token_ASSIGN p1 = (ok2, p2)" by fastforce
    have c2: "cursorAt lx (if ok2 then Suc (Suc k) else Suc k) p2"
      using cursorAt_expectPeek [of lx "Suc k" p1 token_ASSIGN] c1 True e2 by simp
    show ?thesis
    proof (cases ok2)
      case False
      with assms e1 e2 c2 True have "q = p2" by (auto simp: parseLetStatement_def)
      with c2 False show ?thesis by (intro exI [of _ "Suc k"]) simp
    next
      case ok2: True
      with assms e1 e2 True have "skipToSemicolon p2 = Some q"
        by (auto simp: parseLetStatement_def split: option.splits)
      from cursorAt_skip [OF this, of lx] c2 ok2
      obtain k' where "k' \<ge> Suc (Suc k)" "cursorAt lx k' q" by auto
      then show ?thesis using Suc_leD by blast
    qed
  qed
qed

lemma cursorAt_parseReturnStatement:
  assumes "parseReturnStatement p = Some (s, q)" "cursorAt lx k p"
  shows "\<exists>k'\<ge>k. cursorAt lx k' q"
proof -
  from assms(1) have "skipToSemicolon (nextToken p) = Some q"
    by (auto simp: parseReturnStatement_def split: option.splits)
  from cursorAt_skip [OF this, of lx] cursorAt_nextToken [OF assms(2)]
  obtain k' where "k' \<ge> Suc k" "cursorAt lx k' q" by blast
  then show ?thesis using Suc_leD by blast
qed

lemma cursorAt_parseExpressionStatement:
  assumes "cursorAt lx k p"
  shows "\<exists>k'\<ge>k. cursorAt lx k' (snd (parseExpressionStatement p))"
proof -
  obtain e p1 where pe: "parseExpression LOWEST p = (e, p1)" by fastforce
  with cursorAt_parseExpression [OF assms, of LOWEST] have c1: "cursorAt lx k p1" by simp
  show ?thesis
  proof (cases "peekTokenIs token_SEMICOLON p1")
    case True
    with pe cursorAt_nextToken [OF c1] show ?thesis
      by (intro exI [of _ "Suc k"]) (simp add: parseExpressionStatement_def)
  next
    case False
    with pe c1 show ?thesis
      by (intro exI [of _ k]) (simp add: parseExpressionStatement_def)
  qed
qed

lemma cursorAt_parseStatement:
  assumes "parseStatement p = Some (s, q)" "cursorAt lx k p"
  shows "\<exists>k'\<ge>k. cursorAt lx k' q"
  using assms cursorAt_parseLetStatement [of p _ q lx k]
    cursorAt_parseReturnStatement [of p _ q lx k]
    cursorAt_parseExpressionStatement [OF assms(2)]
  by (auto simp: parseStatement_def split: if_splits option.splits prod.splits)

lemma cursorAt_ParseProgram_loop:
  assumes "ParseProgram_loop prog p = Some r"
  shows "\<forall>k. cursorAt lx k p \<longrightarrow> (\<exists>k'\<ge>k. cursorAt lx k' (snd r))"
proof (rule ParseProgram_loop.raw_induct [OF _ assms])
  fix loop prog p r
  assume IH: "\<And>g x y. loop g x = Some y \<Longrightarrow>
      \<forall>k. cursorAt lx k x \<longrightarrow> (\<exists>k'\<ge>k. cursorAt lx k' (snd y))"
    and eq: "(if Type (curToken p) \<noteq> token_EOF
      then case parseStatement p of None \<Rightarrow> None
           | Some (stmt, p1) \<Rightarrow>
               loop (case stmt of None \<Rightarrow> prog
                 | Some s \<Rightarrow> prog\<lparr>Statements := Statements prog @ [s]\<rparr>) (nextToken p1)
      else Some (prog, p)) = Some r"
  show "\<forall>k. cursorAt lx k p \<longrightarrow> (\<exists>k'\<ge>k. cursorAt lx k' (snd r))"
  proof (intro allI impI)
    fix k assume c: "cursorAt lx k p"
    show "\<exists>k'\<ge>k. cursorAt lx k' (snd r)"
    proof (cases "Type (curToken p) \<noteq> token_EOF")
      case False
      with eq c show ?thesis by auto
    next
      case True
      with eq obtain stmt p1 where ps: "parseStatement p = Some (stmt, p1)"
        and rec: "loop (case stmt of None \<Rightarrow> prog
                    | Some s \<Rightarrow> prog\<lparr>Statements := Statements prog @ [s]\<rparr>) (nextToken p1)
                  = Some r"
        by (auto split: option.splits)
      from cursorAt_parseStatement [OF ps c]
      obtain k1 where k1: "k1 \<ge> k" "cursorAt lx k1 p1" by auto
      from IH [OF rec] cursorAt_nextToken [OF k1(2)]
      obtain k' where "k' \<ge> Suc k1" "cursorAt lx k' (snd r)" by blast
      with k1(1) show ?thesis by (intro exI [of _ k']) simp
    qed
  qed
qed

text \<open>
  Where the skip loop stops: at the first semicolon of the stream at or after the
  position it started at. And where a let statement that returns a node leaves the
  parser, in terms of the stream: the identifier and the assignment operator follow the
  token the call started on, and the cursor ends on the first semicolon from the
  assignment operator on.
\<close>

lemma skip_stops_at_first_semicolon:
  assumes "skipToSemicolon p = Some q"
  shows "\<forall>k. cursorAt lx k p \<longrightarrow>
           (\<exists>j\<ge>k. cursorAt lx j q \<and> Type (stream lx j) = token_SEMICOLON
              \<and> (\<forall>i. k \<le> i \<and> i < j \<longrightarrow> Type (stream lx i) \<noteq> token_SEMICOLON))"
proof (rule skipToSemicolon.raw_induct [OF _ assms])
  fix skip p q
  assume IH: "\<And>x y. skip x = Some y \<Longrightarrow> \<forall>k. cursorAt lx k x \<longrightarrow>
           (\<exists>j\<ge>k. cursorAt lx j y \<and> Type (stream lx j) = token_SEMICOLON
              \<and> (\<forall>i. k \<le> i \<and> i < j \<longrightarrow> Type (stream lx i) \<noteq> token_SEMICOLON))"
    and eq: "(if \<not> curTokenIs token_SEMICOLON p then skip (nextToken p) else Some p) = Some q"
  show "\<forall>k. cursorAt lx k p \<longrightarrow>
           (\<exists>j\<ge>k. cursorAt lx j q \<and> Type (stream lx j) = token_SEMICOLON
              \<and> (\<forall>i. k \<le> i \<and> i < j \<longrightarrow> Type (stream lx i) \<noteq> token_SEMICOLON))"
  proof (intro allI impI)
    fix k assume c: "cursorAt lx k p"
    then have cur: "curToken p = stream lx k" by (simp add: cursorAt_def)
    show "\<exists>j\<ge>k. cursorAt lx j q \<and> Type (stream lx j) = token_SEMICOLON
              \<and> (\<forall>i. k \<le> i \<and> i < j \<longrightarrow> Type (stream lx i) \<noteq> token_SEMICOLON)"
    proof (cases "curTokenIs token_SEMICOLON p")
      case True
      with eq have "q = p" by simp
      with c cur True show ?thesis
        by (intro exI [of _ k]) (auto simp: curTokenIs_def)
    next
      case False
      with eq have "skip (nextToken p) = Some q" by simp
      from IH [OF this] cursorAt_nextToken [OF c]
      obtain j where j: "j \<ge> Suc k" "cursorAt lx j q" "Type (stream lx j) = token_SEMICOLON"
        "\<forall>i. Suc k \<le> i \<and> i < j \<longrightarrow> Type (stream lx i) \<noteq> token_SEMICOLON"
        by blast
      have "Type (stream lx i) \<noteq> token_SEMICOLON" if "k \<le> i \<and> i < j" for i
      proof (cases "i = k")
        case True
        with False cur show ?thesis by (simp add: curTokenIs_def)
      next
        case False
        with that have "Suc k \<le> i \<and> i < j" by simp
        with j(4) show ?thesis by blast
      qed
      with j show ?thesis by (intro exI [of _ j]) simp
    qed
  qed
qed

lemma let_statement_position:
  assumes c: "cursorAt lx k p" and ret: "parseLetStatement p = Some (Some s, q)"
  shows "Type (stream lx (Suc k)) = token_IDENT \<and> Type (stream lx (Suc (Suc k))) = token_ASSIGN
     \<and> s = LetStatement (stream lx k)
             (Some (Identifier (stream lx (Suc k)) (Literal (stream lx (Suc k))))) None
     \<and> (\<exists>j\<ge>Suc (Suc k). cursorAt lx j q \<and> Type (stream lx j) = token_SEMICOLON
           \<and> (\<forall>i. Suc (Suc k) \<le> i \<and> i < j \<longrightarrow> Type (stream lx i) \<noteq> token_SEMICOLON))
     \<and> errors q = errors p \<and> prefixParseFns q = prefixParseFns p"
proof -
  from ret have ok1: "peekTokenIs token_IDENT p"
    by (auto simp: parseLetStatement_def expectPeek_def split: if_splits)
  with ret have ok2: "peekTokenIs token_ASSIGN (nextToken p)"
    by (auto simp: parseLetStatement_def expectPeek_def split: if_splits)
  from ret ok1 ok2 have skip: "skipToSemicolon (nextToken (nextToken p)) = Some q"
    and node: "s = LetStatement (curToken p)
        (Some (Identifier (curToken (nextToken p)) (Literal (curToken (nextToken p))))) None"
    by (auto simp: parseLetStatement_def expectPeek_def split: option.splits)
  have c1: "cursorAt lx (Suc k) (nextToken p)" by (rule cursorAt_nextToken [OF c])
  have c2: "cursorAt lx (Suc (Suc k)) (nextToken (nextToken p))"
    by (rule cursorAt_nextToken [OF c1])
  have toks: "curToken p = stream lx k" "peekToken p = stream lx (Suc k)"
    "curToken (nextToken p) = stream lx (Suc k)"
    "peekToken (nextToken p) = stream lx (Suc (Suc k))"
    using c c1 by (simp_all add: cursorAt_def)
  have frame: "errors (nextToken (nextToken p)) = errors p"
    "prefixParseFns (nextToken (nextToken p)) = prefixParseFns p"
    by (simp_all add: nextToken_def split: prod.splits)
  from skip_stops_at_first_semicolon [OF skip, of lx] c2
  have "\<exists>j\<ge>Suc (Suc k). cursorAt lx j q \<and> Type (stream lx j) = token_SEMICOLON
           \<and> (\<forall>i. Suc (Suc k) \<le> i \<and> i < j \<longrightarrow> Type (stream lx i) \<noteq> token_SEMICOLON)"
    by blast
  with ok1 ok2 node toks frame skip_lands_on_semicolon [OF skip] skip_keeps_table [OF skip]
  show ?thesis by (simp add: peekTokenIs_def)
qed

lemma cursorAt_own_stream: "cursorAt (curToken p # peekToken p # l p) 0 p"
  by (simp add: cursorAt_def stream_def)


section \<open>The end-of-input constant\<close>

text \<open>
  Claim C1. Parsing \<^verbatim>\<open>5;\<close> should give one expression statement holding the integer
  literal 5. The code gives a program with no statement. The lexer delivers
  \<^verbatim>\<open>INT("5")\<close> first, the fresh parser has it as current token, and the loop of
  \<^verbatim>\<open>ParseProgram\<close> runs while the current kind differs from \<^verbatim>\<open>token.EOF\<close>, which is the
  string \<^verbatim>\<open>"INT"\<close>: the loop body never runs. No error is recorded, and the parser stops
  where it started, on the integer token. The last conjunct shows that the statement
  parser itself, called on that state, builds the node the claim expects.
\<close>

theorem parse_integer_statement_is_dropped:
  "lexer_New ''5;''
     = [\<lparr>Type = token_INT, Literal = ''5''\<rparr>, \<lparr>Type = token_SEMICOLON, Literal = '';''\<rparr>]
   \<and> map_option (\<lambda>(prog, p). (Statements prog, Errors p, curToken p)) (parseSource ''5;'')
     = Some ([], [], \<lparr>Type = token_INT, Literal = ''5''\<rparr>)
   \<and> fst (parseExpressionStatement (New (lexer_New ''5;'')))
     = Some (ExpressionStatement \<lparr>Type = token_INT, Literal = ''5''\<rparr>
         (Some (IntegerLiteralPtr (IntegerLiteral \<lparr>Type = token_INT, Literal = ''5''\<rparr> 5))))"
  by (simp add: lexer_defs parser_defs token_kinds loop_eqs ParseInt_def ParseUint_def
      digitVal_def lower_def)

text \<open>
  Claim C3. The constants \<^verbatim>\<open>EOF\<close> and \<^verbatim>\<open>INT\<close> of the token file are the same string, so a
  token is of kind \<^verbatim>\<open>EOF\<close> exactly when it is of kind \<^verbatim>\<open>INT\<close>, and \<^verbatim>\<open>ParseProgram\<close> called
  with an integer literal as current token returns at once, with an empty program and
  the parser untouched, as it does at the end of the input.
\<close>

theorem eof_kind_is_int_kind:
  "token_EOF = token_INT
   \<and> (\<forall>t :: Token. Type t = token_EOF \<longleftrightarrow> Type t = token_INT)
   \<and> (\<forall>p. Type (curToken p) = token_INT \<longrightarrow> ParseProgram p = Some (\<lparr>Statements = []\<rparr>, p))"
  by (simp add: token_EOF_def token_INT_def ParseProgram_def ParseProgram_loop.simps)

theorem eof_kind_is_int_kind_witness:
  "Type (curToken (New (lexer_New ''5;''))) = token_INT
   \<and> ParseProgram (New (lexer_New ''5;'')) = Some (\<lparr>Statements = []\<rparr>, New (lexer_New ''5;''))"
proof -
  have cur: "Type (curToken (New (lexer_New ''5;''))) = token_INT"
    by (simp add: lexer_defs New_def registerPrefix_def nextToken_def token_kinds)
  from eof_kind_is_int_kind have
    "Type (curToken (New (lexer_New ''5;''))) = token_INT
       \<longrightarrow> ParseProgram (New (lexer_New ''5;'')) = Some (\<lparr>Statements = []\<rparr>, New (lexer_New ''5;''))"
    by blast
  with cur show ?thesis by blast
qed

text \<open>
  Claim C7. Parsing \<^verbatim>\<open>return 10;\<close> should give one return statement. The code gives one
  statement, and it is an expression statement holding the identifier \<^verbatim>\<open>return\<close>: the
  keyword table has entries for \<^verbatim>\<open>fn\<close> and \<^verbatim>\<open>let\<close> only, so \<^verbatim>\<open>LookupIdent\<close> classifies
  the word as an identifier and \<^verbatim>\<open>parseStatement\<close> never takes its \<^verbatim>\<open>token.RETURN\<close> branch.
  (The parse then stops on \<^verbatim>\<open>INT("10")\<close>, which is of the end-of-input kind.) The last
  conjunct shows the parser on a stream in which the word does carry the kind
  \<^verbatim>\<open>token.RETURN\<close>: there it builds the return statement.
\<close>

theorem return_keyword_is_an_identifier:
  "LookupIdent ''return'' = token_IDENT
   \<and> lexer_New ''return 10;''
     = [\<lparr>Type = token_IDENT, Literal = ''return''\<rparr>, \<lparr>Type = token_INT, Literal = ''10''\<rparr>,
        \<lparr>Type = token_SEMICOLON, Literal = '';''\<rparr>]
   \<and> map_option (\<lambda>(prog, p). (Statements prog, Errors p, curToken p)) (parseSource ''return 10;'')
     = Some ([ExpressionStatementPtr (Some
               (ExpressionStatement \<lparr>Type = token_IDENT, Literal = ''return''\<rparr>
                 (Some (IdentifierPtr
                   (Identifier \<lparr>Type = token_IDENT, Literal = ''return''\<rparr> ''return'')))))],
             [], \<lparr>Type = token_INT, Literal = ''10''\<rparr>)
   \<and> map_option (\<lambda>(prog, p). (Statements prog, Errors p))
       (ParseProgram (New [\<lparr>Type = token_RETURN, Literal = ''return''\<rparr>,
                           \<lparr>Type = token_INT, Literal = ''10''\<rparr>,
                           \<lparr>Type = token_SEMICOLON, Literal = '';''\<rparr>]))
     = Some ([ReturnStatementPtr (Some
               (ReturnStatement \<lparr>Type = token_RETURN, Literal = ''return''\<rparr> None))], [])"
  by (simp add: lexer_defs parser_defs token_kinds loop_eqs)

section \<open>Errors that are and are not recorded\<close>

text \<open>
  Claim C4. When no prefix parse function is registered for the current kind,
  \<^verbatim>\<open>parseExpression\<close> should return no node and append an error. The code returns no node
  and appends nothing: that branch prints two lines and returns \<^verbatim>\<open>nil\<close>, where
  \<^verbatim>\<open>peekError\<close> and \<^verbatim>\<open>parseIntegerLiteral\<close> append to \<^verbatim>\<open>p.errors\<close>. On the text \<^verbatim>\<open>=\<close> the
  fresh parser has no prefix function for its current token, \<^verbatim>\<open>parseExpression\<close> leaves
  the parser as it was, and the whole parse ends with an expression statement without
  expression and an empty error list.
\<close>

theorem missing_prefix_function_records_no_error:
  "lexer_New ''='' = [\<lparr>Type = token_ASSIGN, Literal = ''=''\<rparr>]
   \<and> prefixParseFns (New (lexer_New ''='')) (Type (curToken (New (lexer_New ''='')))) = None
   \<and> parseExpression LOWEST (New (lexer_New ''='')) = (None, New (lexer_New ''=''))
   \<and> Errors (snd (parseExpression LOWEST (New (lexer_New ''='')))) = []
   \<and> map_option (\<lambda>(prog, p). (Statements prog, Errors p)) (parseSource ''='')
       = Some ([ExpressionStatementPtr
                  (Some (ExpressionStatement \<lparr>Type = token_ASSIGN, Literal = ''=''\<rparr> None))], [])"
  by (simp add: lexer_defs parser_defs token_kinds loop_eqs)

text \<open>
  Claim C5. Parsing \<^verbatim>\<open>let x 5;\<close> should give no statement and one error that names the
  expected kind. The code records that one error, \<^verbatim>\<open>expected next token to be =, got INT
  instead\<close>, and gives a program with one statement: \<^verbatim>\<open>parseLetStatement\<close> returns a \<^verbatim>\<open>nil\<close>
  pointer of type \<^verbatim>\<open>*ast.LetStatement\<close>, \<^verbatim>\<open>parseStatement\<close> returns it as an
  \<^verbatim>\<open>ast.Statement\<close>, and an interface value that holds a typed \<^verbatim>\<open>nil\<close> pointer is not
  \<^verbatim>\<open>nil\<close>, so the test \<^verbatim>\<open>stmt != nil\<close> of \<^verbatim>\<open>ParseProgram\<close> passes and the value is appended.
\<close>

theorem failed_let_statement_is_appended:
  "lexer_New ''let x 5;''
     = [\<lparr>Type = token_LET, Literal = ''let''\<rparr>, \<lparr>Type = token_IDENT, Literal = ''x''\<rparr>,
        \<lparr>Type = token_INT, Literal = ''5''\<rparr>, \<lparr>Type = token_SEMICOLON, Literal = '';''\<rparr>]
   \<and> map_option (\<lambda>(prog, p). (Statements prog, Errors p)) (parseSource ''let x 5;'')
     = Some ([LetStatementPtr None], [''expected next token to be =, got INT instead''])"
  by (simp add: lexer_defs parser_defs token_kinds loop_eqs)

text \<open>
  Claim C10. When \<^verbatim>\<open>expectPeek(t)\<close> fails, that is when the peek token is not of kind
  \<^verbatim>\<open>t\<close>, it returns false and the parser is the one it was called on with one message
  appended to its errors: current token, peek token, lexer and prefix table are
  unchanged. When it succeeds it returns true and the parser has advanced by exactly one
  \<^verbatim>\<open>nextToken\<close>.
\<close>

theorem expectPeek_failure_only_appends_error:
  "(Type (peekToken p) \<noteq> t \<longrightarrow>
      expectPeek t p =
        (False, p\<lparr>errors := errors p @
           [''expected next token to be '' @ t @ '', got '' @ Type (peekToken p) @ '' instead'']\<rparr>)
      \<and> curToken (snd (expectPeek t p)) = curToken p
      \<and> peekToken (snd (expectPeek t p)) = peekToken p
      \<and> l (snd (expectPeek t p)) = l p
      \<and> prefixParseFns (snd (expectPeek t p)) = prefixParseFns p
      \<and> length (errors (snd (expectPeek t p))) = length (errors p) + 1)
   \<and> (Type (peekToken p) = t \<longrightarrow> expectPeek t p = (True, nextToken p))"
  by (simp add: expectPeek_def peekTokenIs_def peekError_def)

theorem expectPeek_failure_only_appends_error_witness:
  "Type (peekToken (nextToken (New (lexer_New ''let x 5;'')))) \<noteq> token_ASSIGN
   \<and> fst (expectPeek token_ASSIGN (nextToken (New (lexer_New ''let x 5;'')))) = False
   \<and> errors (snd (expectPeek token_ASSIGN (nextToken (New (lexer_New ''let x 5;'')))))
       = [''expected next token to be =, got INT instead'']
   \<and> curToken (snd (expectPeek token_ASSIGN (nextToken (New (lexer_New ''let x 5;'')))))
       = \<lparr>Type = token_IDENT, Literal = ''x''\<rparr>
   \<and> l (snd (expectPeek token_ASSIGN (nextToken (New (lexer_New ''let x 5;'')))))
       = l (nextToken (New (lexer_New ''let x 5;'')))
   \<and> expectPeek token_IDENT (New (lexer_New ''let x 5;''))
       = (True, nextToken (New (lexer_New ''let x 5;'')))"
proof -
  let ?p = "nextToken (New (lexer_New ''let x 5;''))"
  have peek: "Type (peekToken ?p) \<noteq> token_ASSIGN"
    by (simp add: lexer_defs New_def registerPrefix_def nextToken_def token_kinds)
  have peek0: "Type (peekToken (New (lexer_New ''let x 5;''))) = token_IDENT"
    by (simp add: lexer_defs New_def registerPrefix_def nextToken_def token_kinds)
  have vals: "errors ?p = []" "curToken ?p = \<lparr>Type = token_IDENT, Literal = ''x''\<rparr>"
    "Type (peekToken ?p) = ''INT''"
    by (simp_all add: lexer_defs New_def registerPrefix_def nextToken_def token_kinds)
  from expectPeek_failure_only_appends_error [of ?p token_ASSIGN] peek
  have fail: "expectPeek token_ASSIGN ?p =
        (False, ?p\<lparr>errors := errors ?p @
           [''expected next token to be '' @ token_ASSIGN @ '', got '' @ Type (peekToken ?p) @ '' instead'']\<rparr>)"
    "curToken (snd (expectPeek token_ASSIGN ?p)) = curToken ?p"
    "l (snd (expectPeek token_ASSIGN ?p)) = l ?p"
    by blast+
  from expectPeek_failure_only_appends_error
         [of "New (lexer_New ''let x 5;'')" token_IDENT] peek0
  have ok: "expectPeek token_IDENT (New (lexer_New ''let x 5;''))
              = (True, nextToken (New (lexer_New ''let x 5;'')))"
    by blast
  have "errors (snd (expectPeek token_ASSIGN ?p)) = [''expected next token to be =, got INT instead'']"
    unfolding fail(1) by (simp add: vals token_ASSIGN_def)
  with peek fail ok vals show ?thesis by simp
qed

section \<open>Let statements\<close>

text \<open>
  Claim C6. Parsing \<^verbatim>\<open>let x = 5;\<close> gives a program of exactly one statement, a let
  statement whose name has the value \<^verbatim>\<open>x\<close> (its value expression is left unset, and no
  error is recorded). And whenever \<^verbatim>\<open>parseLetStatement\<close> returns a node, the parser it
  leaves stands exactly on the semicolon that ends the statement. With the parser at
  position \<open>k\<close> of a token stream when the call starts (every parser is at position 0 of
  the stream of its own upcoming tokens): token \<open>k + 1\<close> is an identifier and token
  \<open>k + 2\<close> the assignment operator; the node carries token \<open>k\<close> and, as name, token
  \<open>k + 1\<close> with its text; the cursor ends at a position \<open>j\<close> from \<open>k + 2\<close> on whose token
  is a semicolon, with no semicolon at the positions from \<open>k + 2\<close> up to \<open>j\<close>, so \<open>j\<close> is
  the first semicolon after the assignment operator; there the current token is token
  \<open>j\<close>, the peek token is token \<open>j + 1\<close> and the lexer has delivered exactly the tokens up
  to \<open>j + 1\<close>; errors and prefix table are as they were.
\<close>

theorem let_statement_ends_on_semicolon:
  "lexer_New ''let x = 5;''
     = [\<lparr>Type = token_LET, Literal = ''let''\<rparr>, \<lparr>Type = token_IDENT, Literal = ''x''\<rparr>,
        \<lparr>Type = token_ASSIGN, Literal = ''=''\<rparr>, \<lparr>Type = token_INT, Literal = ''5''\<rparr>,
        \<lparr>Type = token_SEMICOLON, Literal = '';''\<rparr>]
   \<and> map_option (\<lambda>(prog, p). (Statements prog, Errors p)) (parseSource ''let x = 5;'')
     = Some ([LetStatementPtr (Some
               (LetStatement \<lparr>Type = token_LET, Literal = ''let''\<rparr>
                  (Some (Identifier \<lparr>Type = token_IDENT, Literal = ''x''\<rparr> ''x'')) None))], [])
   \<and> (\<forall>p s q. parseLetStatement p = Some (Some s, q) \<longrightarrow>
         Type (curToken q) = token_SEMICOLON
         \<and> s = LetStatement (curToken p)
                 (Some (Identifier (peekToken p) (Literal (peekToken p)))) None
         \<and> errors q = errors p)
   \<and> (\<forall>p. cursorAt (curToken p # peekToken p # l p) 0 p)
   \<and> (\<forall>lx k p s q. cursorAt lx k p \<and> parseLetStatement p = Some (Some s, q) \<longrightarrow>
         Type (stream lx (Suc k)) = token_IDENT
         \<and> Type (stream lx (Suc (Suc k))) = token_ASSIGN
         \<and> s = LetStatement (stream lx k)
                 (Some (Identifier (stream lx (Suc k)) (Literal (stream lx (Suc k))))) None
         \<and> (\<exists>j\<ge>Suc (Suc k). cursorAt lx j q \<and> Type (stream lx j) = token_SEMICOLON
               \<and> (\<forall>i. Suc (Suc k) \<le> i \<and> i < j \<longrightarrow> Type (stream lx i) \<noteq> token_SEMICOLON))
         \<and> errors q = errors p \<and> prefixParseFns q = prefixParseFns p)"
proof -
  have tokens: "lexer_New ''let x = 5;''
     = [\<lparr>Type = token_LET, Literal = ''let''\<rparr>, \<lparr>Type = token_IDENT, Literal = ''x''\<rparr>,
        \<lparr>Type = token_ASSIGN, Literal = ''=''\<rparr>, \<lparr>Type = token_INT, Literal = ''5''\<rparr>,
        \<lparr>Type = token_SEMICOLON, Literal = '';''\<rparr>]"
    by (simp add: lexer_defs token_kinds)
  have concrete:
    "map_option (\<lambda>(prog, p). (Statements prog, Errors p)) (parseSource ''let x = 5;'')
     = Some ([LetStatementPtr (Some
               (LetStatement \<lparr>Type = token_LET, Literal = ''let''\<rparr>
                  (Some (Identifier \<lparr>Type = token_IDENT, Literal = ''x''\<rparr> ''x'')) None))], [])"
    by (simp add: lexer_defs parser_defs token_kinds loop_eqs)
  have own: "cursorAt (curToken p # peekToken p # l p) 0 p" for p
    by (rule cursorAt_own_stream)
  have general: "Type (curToken q) = token_SEMICOLON
         \<and> s = LetStatement (curToken p)
                 (Some (Identifier (peekToken p) (Literal (peekToken p)))) None
         \<and> errors q = errors p"
    if ret: "parseLetStatement p = Some (Some s, q)" for p s q
  proof -
    from let_statement_position [OF own [of p] ret]
    obtain j where "cursorAt (curToken p # peekToken p # l p) j q"
      "Type (stream (curToken p # peekToken p # l p) j) = token_SEMICOLON"
      and rest: "s = LetStatement (stream (curToken p # peekToken p # l p) 0)
             (Some (Identifier (stream (curToken p # peekToken p # l p) (Suc 0))
                (Literal (stream (curToken p # peekToken p # l p) (Suc 0))))) None"
        "errors q = errors p"
      by blast
    then have "Type (curToken q) = token_SEMICOLON" by (simp add: cursorAt_def)
    with rest show ?thesis by (simp add: stream_def)
  qed
  have positioned: "Type (stream lx (Suc k)) = token_IDENT
         \<and> Type (stream lx (Suc (Suc k))) = token_ASSIGN
         \<and> s = LetStatement (stream lx k)
                 (Some (Identifier (stream lx (Suc k)) (Literal (stream lx (Suc k))))) None
         \<and> (\<exists>j\<ge>Suc (Suc k). cursorAt lx j q \<and> Type (stream lx j) = token_SEMICOLON
               \<and> (\<forall>i. Suc (Suc k) \<le> i \<and> i < j \<longrightarrow> Type (stream lx i) \<noteq> token_SEMICOLON))
         \<and> errors q = errors p \<and> prefixParseFns q = prefixParseFns p"
    if "cursorAt lx k p \<and> parseLetStatement p = Some (Some s, q)" for lx k p s q
    using that let_statement_position [of lx k p s q] by blast
  from tokens concrete general own positioned show ?thesis by blast
qed

theorem let_statement_ends_on_semicolon_witness:
  "\<exists>s q. parseLetStatement (New (lexer_New ''let x = 5;'')) = Some (Some s, q)
     \<and> s = LetStatement \<lparr>Type = token_LET, Literal = ''let''\<rparr>
             (Some (Identifier \<lparr>Type = token_IDENT, Literal = ''x''\<rparr> ''x'')) None
     \<and> cursorAt (lexer_New ''let x = 5;'') 4 q
     \<and> curToken q = \<lparr>Type = token_SEMICOLON, Literal = '';''\<rparr>
     \<and> peekToken q = eofToken \<and> l q = []
     \<and> errors q = [] \<and> prefixParseFns q = prefixParseFns (New (lexer_New ''let x = 5;''))"
proof -
  let ?lx = "lexer_New ''let x = 5;''"
  let ?p = "New ?lx"
  have lx: "?lx = [\<lparr>Type = token_LET, Literal = ''let''\<rparr>, \<lparr>Type = token_IDENT, Literal = ''x''\<rparr>,
        \<lparr>Type = token_ASSIGN, Literal = ''=''\<rparr>, \<lparr>Type = token_INT, Literal = ''5''\<rparr>,
        \<lparr>Type = token_SEMICOLON, Literal = '';''\<rparr>]"
    by (simp add: lexer_defs token_kinds)
  have "\<exists>s q. parseLetStatement ?p = Some (Some s, q)"
    by (simp add: lexer_defs parser_defs token_kinds loop_eqs)
  then obtain s q where ret: "parseLetStatement ?p = Some (Some s, q)" by blast
  have c0: "cursorAt ?lx 0 ?p" by (rule cursorAt_New)
  have errs: "errors ?p = []" by (simp add: New_def registerPrefix_def nextToken_def split: prod.splits)
  from let_statement_ends_on_semicolon c0 ret
  have pos: "s = LetStatement (stream ?lx 0)
                 (Some (Identifier (stream ?lx (Suc 0)) (Literal (stream ?lx (Suc 0))))) None
         \<and> (\<exists>j\<ge>Suc (Suc 0). cursorAt ?lx j q \<and> Type (stream ?lx j) = token_SEMICOLON
               \<and> (\<forall>i. Suc (Suc 0) \<le> i \<and> i < j \<longrightarrow> Type (stream ?lx i) \<noteq> token_SEMICOLON))
         \<and> errors q = errors ?p \<and> prefixParseFns q = prefixParseFns ?p"
    by blast
  then obtain j where j: "j \<ge> Suc (Suc 0)" "cursorAt ?lx j q"
    "Type (stream ?lx j) = token_SEMICOLON"
    "\<forall>i. Suc (Suc 0) \<le> i \<and> i < j \<longrightarrow> Type (stream ?lx i) \<noteq> token_SEMICOLON"
    by blast
  have s4: "Type (stream ?lx 4) = token_SEMICOLON" by (simp add: lx stream_def)
  have s23: "Type (stream ?lx 2) \<noteq> token_SEMICOLON" "Type (stream ?lx 3) \<noteq> token_SEMICOLON"
    by (simp_all add: lx stream_def token_kinds)
  have "j \<le> 4"
  proof (rule ccontr)
    assume "\<not> j \<le> 4"
    then have "Suc (Suc 0) \<le> (4::nat) \<and> 4 < j" by simp
    with j(4) s4 show False by blast
  qed
  moreover have "j \<noteq> 2" "j \<noteq> 3" using j(3) s23 by auto
  ultimately have "j = 4" using j(1) by arith
  with j(2) have c4: "cursorAt ?lx 4 q" by simp
  then have "curToken q = stream ?lx 4" "peekToken q = stream ?lx 5" "l q = drop 6 ?lx"
    by (simp_all add: cursorAt_def eval_nat_numeral)
  then have q: "curToken q = \<lparr>Type = token_SEMICOLON, Literal = '';''\<rparr>"
    "peekToken q = eofToken" "l q = []"
    by (simp_all add: lx stream_def)
  have s01: "stream ?lx 0 = \<lparr>Type = token_LET, Literal = ''let''\<rparr>"
    "stream ?lx (Suc 0) = \<lparr>Type = token_IDENT, Literal = ''x''\<rparr>"
    by (simp_all add: lx stream_def)
  from ret pos c4 q s01 errs show ?thesis by simp
qed

section \<open>Termination\<close>

text \<open>
  Claim C2, as stated, fails: \<^verbatim>\<open>ParseProgram\<close> does not return on every source text.
  On \<^verbatim>\<open>let x = 5\<close>, without semicolon, \<^verbatim>\<open>parseLetStatement\<close> enters its loop on the
  assignment operator; the loop advances until the current token is a semicolon, every
  pull from the exhausted lexer delivers the end-of-input token, and the loop runs for
  ever.
\<close>

theorem let_without_semicolon_never_returns:
  "lexer_New ''let x = 5''
     = [\<lparr>Type = token_LET, Literal = ''let''\<rparr>, \<lparr>Type = token_IDENT, Literal = ''x''\<rparr>,
        \<lparr>Type = token_ASSIGN, Literal = ''=''\<rparr>, \<lparr>Type = token_INT, Literal = ''5''\<rparr>]
   \<and> parseSource ''let x = 5'' = None"
proof -
  have tokens: "lexer_New ''let x = 5''
     = [\<lparr>Type = token_LET, Literal = ''let''\<rparr>, \<lparr>Type = token_IDENT, Literal = ''x''\<rparr>,
        \<lparr>Type = token_ASSIGN, Literal = ''=''\<rparr>, \<lparr>Type = token_INT, Literal = ''5''\<rparr>]"
    by (simp add: lexer_defs token_kinds)
  let ?p = "New (lexer_New ''let x = 5'')"
  have cur: "Type (curToken ?p) = token_LET" "Type (curToken ?p) \<noteq> token_EOF"
    by (simp_all add: lexer_defs New_def registerPrefix_def nextToken_def token_kinds)
  have "peekTokenIs token_IDENT ?p"
    by (simp add: lexer_defs New_def registerPrefix_def nextToken_def peekTokenIs_def token_kinds)
  moreover have "peekTokenIs token_ASSIGN (nextToken ?p)"
    by (simp add: lexer_defs New_def registerPrefix_def nextToken_def peekTokenIs_def token_kinds)
  moreover have "\<not> semicolonAhead (upcoming (nextToken (nextToken ?p)))"
    by (simp add: lexer_defs New_def registerPrefix_def nextToken_def semicolonAhead_def
        upcoming_def token_kinds)
  ultimately have "parseLetStatement ?p = None" by (rule let_without_semicolon)
  with cur have "parseStatement ?p = None" by (simp add: parseStatement_def)
  with cur(2) have "parseSource ''let x = 5'' = None"
    by (simp add: parseSource_def ParseProgram_def ParseProgram_loop.simps [of _ ?p])
  with tokens show ?thesis by blast
qed

text \<open>
  Claim C2, amended. The skip loop of \<^verbatim>\<open>parseLetStatement\<close> and \<^verbatim>\<open>parseReturnStatement\<close>
  returns exactly when a semicolon is among the tokens still to come (the current token,
  the peek token, or a token the lexer holds); with none before the end of the input it
  never returns. \<^verbatim>\<open>ParseProgram\<close> returns, with the current token of the end-of-input kind,
  on every parser state, and so on every source text, in which each \<^verbatim>\<open>return\<close> token and
  each \<^verbatim>\<open>let\<close> token that an identifier and the assignment operator follow has a
  semicolon somewhere after it.
\<close>

theorem parse_terminates_on_closed_statements:
  "(\<forall>p. (\<exists>q. skipToSemicolon p = Some q) \<longleftrightarrow> semicolonAhead (upcoming p))
   \<and> (\<forall>p. statementsClosed (upcoming p) \<longrightarrow>
         (\<exists>prog q. ParseProgram p = Some (prog, q) \<and> Type (curToken q) = token_EOF))
   \<and> (\<forall>input. statementsClosed (lexer_New input) \<longrightarrow>
         (\<exists>prog q. parseSource input = Some (prog, q) \<and> Type (curToken q) = token_EOF))"
proof (intro conjI allI impI)
  fix p
  show "(\<exists>q. skipToSemicolon p = Some q) \<longleftrightarrow> semicolonAhead (upcoming p)"
    using skip_needs_semicolon [of p] skip_terminates [of p] by blast
next
  fix p
  assume "statementsClosed (upcoming p)"
  from loop_terminates [OF this, of "\<lparr>Statements = []\<rparr>"]
  show "\<exists>prog q. ParseProgram p = Some (prog, q) \<and> Type (curToken q) = token_EOF"
    by (auto simp: ParseProgram_def)
next
  fix input
  assume "statementsClosed (lexer_New input)"
  from loop_terminates [OF statementsClosed_New [OF this], of "\<lparr>Statements = []\<rparr>"]
  show "\<exists>prog q. parseSource input = Some (prog, q) \<and> Type (curToken q) = token_EOF"
    by (auto simp: parseSource_def ParseProgram_def)
qed

theorem parse_terminates_on_closed_statements_witness:
  "statementsClosed (lexer_New ''let x = 5; let y = x;'')
   \<and> (\<exists>prog q. parseSource ''let x = 5; let y = x;'' = Some (prog, q)
         \<and> Type (curToken q) = token_EOF)
   \<and> semicolonAhead (upcoming (New (lexer_New ''= 5;'')))
   \<and> (\<exists>q. skipToSemicolon (New (lexer_New ''= 5;'')) = Some q)
   \<and> \<not> semicolonAhead (upcoming (New (lexer_New ''= 5'')))
   \<and> skipToSemicolon (New (lexer_New ''= 5'')) = None"
proof -
  have closed: "statementsClosed (lexer_New ''let x = 5; let y = x;'')"
    by (simp add: lexer_defs semicolonAhead_def token_kinds)
  have ahead: "semicolonAhead (upcoming (New (lexer_New ''= 5;'')))"
    by (simp add: lexer_defs New_def registerPrefix_def nextToken_def semicolonAhead_def
        upcoming_def token_kinds)
  have none: "\<not> semicolonAhead (upcoming (New (lexer_New ''= 5'')))"
    by (simp add: lexer_defs New_def registerPrefix_def nextToken_def semicolonAhead_def
        upcoming_def token_kinds)
  note main = parse_terminates_on_closed_statements
  from main closed
  have "\<exists>prog q. parseSource ''let x = 5; let y = x;'' = Some (prog, q)
         \<and> Type (curToken q) = token_EOF"
    by blast
  moreover from main ahead have "\<exists>q. skipToSemicolon (New (lexer_New ''= 5;'')) = Some q"
    by blast
  moreover from main none have "skipToSemicolon (New (lexer_New ''= 5'')) = None"
    by (cases "skipToSemicolon (New (lexer_New ''= 5''))") blast+
  ultimately show ?thesis using closed ahead none by blast
qed

section \<open>Determinism\<close>




text \<open>
  That each parser has a lexer of its own matters. Two parsers built on one lexer over
  \<^verbatim>\<open>let x = 5;\<close> share its tokens out between them: the first gets \<^verbatim>\<open>let\<close> and \<^verbatim>\<open>x\<close>,
  the second \<^verbatim>\<open>=\<close> and \<^verbatim>\<open>5\<close>, and the two parses differ in program and in errors.
\<close>

lemma two_parsers_on_one_lexer_differ:
  "twoParsers 0 0 (\<lambda>a. lexer_New ''let x = 5;'')
     = Some ((\<lparr>Statements =
                 [LetStatementPtr None,
                  ExpressionStatementPtr (Some
                    (ExpressionStatement \<lparr>Type = token_SEMICOLON, Literal = '';''\<rparr> None))]\<rparr>,
              [''expected next token to be =, got ; instead'']),
             (\<lparr>Statements =
                 [ExpressionStatementPtr (Some
                    (ExpressionStatement \<lparr>Type = token_ASSIGN, Literal = ''=''\<rparr> None))]\<rparr>,
              []))"
  by (simp add: twoParsers_def New_at_def ParseProgram_at_def writeBack_def deref_def
      lexer_defs parser_defs token_kinds loop_eqs)



section \<open>Two tokens of lookahead\<close>

text \<open>
  Claim C9. A fresh parser over a lexer has pulled exactly two tokens and stands at
  position 0 of the lexer's stream: its current and peek tokens are the first two tokens
  of the stream, where the stream continues with the end-of-input token past the end of
  the source. \<^verbatim>\<open>nextToken\<close> moves the peek token into the current token and pulls exactly
  one token, so it moves the cursor from position \<open>k\<close> to \<open>k + 1\<close>. Every other
  operation of the parser leaves it at a position of the same stream, the one it was at
  or a later one: \<^verbatim>\<open>expectPeek\<close>, \<^verbatim>\<open>parseExpression\<close>, \<^verbatim>\<open>parseStatement\<close> with each of its
  three statement parsers, and \<^verbatim>\<open>ParseProgram\<close>. So at every point the parser holds the
  next two unconsumed tokens, and the lexer has delivered those and no more.
\<close>

theorem cursor_holds_next_two_tokens:
  "cursorAt lx 0 (New lx) \<and> l (New lx) = drop 2 lx
   \<and> (\<forall>k. stream lx k = (if k < length lx then lx ! k else eofToken))
   \<and> (\<forall>p. curToken (nextToken p) = peekToken p
          \<and> (peekToken (nextToken p), l (nextToken p)) = NextToken (l p))
   \<and> (\<forall>k p. cursorAt lx k p \<longrightarrow> cursorAt lx (Suc k) (nextToken p))
   \<and> (\<forall>k p t. cursorAt lx k p \<longrightarrow>
          cursorAt lx (if fst (expectPeek t p) then Suc k else k) (snd (expectPeek t p)))
   \<and> (\<forall>k p prec. cursorAt lx k p \<longrightarrow> cursorAt lx k (snd (parseExpression prec p)))
   \<and> (\<forall>k p s q. cursorAt lx k p \<and> parseStatement p = Some (s, q) \<longrightarrow>
          (\<exists>k'\<ge>k. cursorAt lx k' q))
   \<and> (\<forall>k p prog q. cursorAt lx k p \<and> ParseProgram p = Some (prog, q) \<longrightarrow>
          (\<exists>k'\<ge>k. cursorAt lx k' q))"
proof (intro conjI allI impI)
  show "cursorAt lx 0 (New lx)" by (rule cursorAt_New)
  then show "l (New lx) = drop 2 lx" by (simp add: cursorAt_def numeral_2_eq_2)
next
  fix k show "stream lx k = (if k < length lx then lx ! k else eofToken)"
    by (simp add: stream_def)
next
  fix p
  show "curToken (nextToken p) = peekToken p"
    by (simp add: nextToken_def split: prod.splits)
  show "(peekToken (nextToken p), l (nextToken p)) = NextToken (l p)"
    by (simp add: nextToken_def split: prod.splits)
next
  fix k p assume "cursorAt lx k p"
  then show "cursorAt lx (Suc k) (nextToken p)" by (rule cursorAt_nextToken)
next
  fix k p t assume "cursorAt lx k p"
  then show "cursorAt lx (if fst (expectPeek t p) then Suc k else k) (snd (expectPeek t p))"
    by (rule cursorAt_expectPeek)
next
  fix k p prec assume "cursorAt lx k p"
  then show "cursorAt lx k (snd (parseExpression prec p))" by (rule cursorAt_parseExpression)
next
  fix k p s q assume "cursorAt lx k p \<and> parseStatement p = Some (s, q)"
  then show "\<exists>k'\<ge>k. cursorAt lx k' q" using cursorAt_parseStatement by blast
next
  fix k p prog q assume a: "cursorAt lx k p \<and> ParseProgram p = Some (prog, q)"
  then have "ParseProgram_loop \<lparr>Statements = []\<rparr> p = Some (prog, q)"
    by (simp add: ParseProgram_def)
  from cursorAt_ParseProgram_loop [OF this, of lx] a show "\<exists>k'\<ge>k. cursorAt lx k' q" by simp
qed

theorem cursor_holds_next_two_tokens_witness:
  "cursorAt (lexer_New ''let x = 5;'') 0 (New (lexer_New ''let x = 5;''))
   \<and> curToken (New (lexer_New ''let x = 5;'')) = \<lparr>Type = token_LET, Literal = ''let''\<rparr>
   \<and> peekToken (New (lexer_New ''let x = 5;'')) = \<lparr>Type = token_IDENT, Literal = ''x''\<rparr>
   \<and> cursorAt (lexer_New ''let x = 5;'') 1 (nextToken (New (lexer_New ''let x = 5;'')))
   \<and> (\<exists>prog q k. ParseProgram (New (lexer_New ''let x = 5;'')) = Some (prog, q)
         \<and> cursorAt (lexer_New ''let x = 5;'') k q)"
proof -
  let ?lx = "lexer_New ''let x = 5;''"
  note main = cursor_holds_next_two_tokens [of ?lx]
  from main have c0: "cursorAt ?lx 0 (New ?lx)" by blast
  with main have c1: "cursorAt ?lx (Suc 0) (nextToken (New ?lx))" by blast
  have "\<exists>prog q. ParseProgram (New ?lx) = Some (prog, q)"
    by (simp add: lexer_defs parser_defs token_kinds loop_eqs)
  then obtain prog q where ret: "ParseProgram (New ?lx) = Some (prog, q)" by blast
  with main c0 have "\<exists>k'\<ge>0. cursorAt ?lx k' q" by blast
  with ret have last: "\<exists>prog q k. ParseProgram (New ?lx) = Some (prog, q) \<and> cursorAt ?lx k q"
    by blast
  have vals: "curToken (New ?lx) = \<lparr>Type = token_LET, Literal = ''let''\<rparr>"
    "peekToken (New ?lx) = \<lparr>Type = token_IDENT, Literal = ''x''\<rparr>"
    by (simp_all add: lexer_defs New_def registerPrefix_def nextToken_def token_kinds)
  from c0 c1 last vals show ?thesis by simp
qed

end
